theory Spec2Isabelle
  imports Main
begin

section \<open>The head of a document\<close>

text \<open>
  The transformer in \<^verbatim>\<open>external-reorder-head-transformer.js\<close> reads three things of a
  child of the head: its tag name, whether it has an attribute, and the value of an
  attribute (\<^verbatim>\<open>null\<close> when the attribute is absent). It compares children by reference
  (\<^verbatim>\<open>Array.prototype.includes\<close>). A child is therefore a record of an identity, a tag
  name and an association list of attributes; two nodes with the same markup differ in
  \<open>node_id\<close>, so that equality of records is identity of nodes.
\<close>

record element =
  node_id :: nat
  tagName :: string
  attributes :: "(string \<times> string) list"

definition hasAttribute :: "element \<Rightarrow> string \<Rightarrow> bool" where
  "hasAttribute e n = (map_of (attributes e) n \<noteq> None)"

definition getAttribute :: "element \<Rightarrow> string \<Rightarrow> string option" where
  "getAttribute e n = map_of (attributes e) n"

text \<open>
  The head itself: a reference and the sequence of its element children. The value
  \<^verbatim>\<open>null\<close> of the source is \<open>None\<close> of \<open>head option\<close>.
\<close>

record head =
  head_ref :: nat
  children :: "element list"

text \<open>
  \<^verbatim>\<open>parent.appendChild(child)\<close> of the DOM: the child becomes the last child of the
  parent, and a node that is already a child of the parent is moved there, never
  duplicated (a node has one position in the tree).
\<close>

definition appendChild :: "head \<Rightarrow> element \<Rightarrow> head" where
  "appendChild parent child =
     parent\<lparr>children := removeAll child (children parent) @ [child]\<rparr>"

text \<open>\<^verbatim>\<open>head.innerHTML = ''\<close> removes every child.\<close>

definition clearInnerHTML :: "head \<Rightarrow> head" where
  "clearInnerHTML h = h\<lparr>children := []\<rparr>"

datatype error = TypeError

section \<open>String helpers\<close>

text \<open>
  Modelled from the spec: \<^verbatim>\<open>startsWith\<close> and \<^verbatim>\<open>endsWith\<close> are imported from
  \<^verbatim>\<open>../../../src/string\<close>, a file that is not among the sources. The specification
  describes them as prefix and suffix tests against possibly absent attributes, an
  absent attribute being non-matching and not a failure.
\<close>

fun startsWith :: "string option \<Rightarrow> string \<Rightarrow> bool" where
  "startsWith None p = False"
| "startsWith (Some s) p = (take (length p) s = p)"

fun endsWith :: "string option \<Rightarrow> string \<Rightarrow> bool" where
  "endsWith None x = False"
| "endsWith (Some s) x = (length x \<le> length s \<and> drop (length s - length x) s = x)"

section \<open>The transformer\<close>

text \<open>
  The only field of a transformer is \<^verbatim>\<open>this.headComponents\<close>: seven arrays and nine
  nullable single slots, in the order of the constructor.
\<close>

record headComponents =
  metaOther :: "element list"
  scriptNonRenderDelayingExtensions :: "element list"
  scriptRenderDelayingExtensions :: "element list"
  linkIcons :: "element list"
  linkResourceHints :: "element list"
  linkStylesheetBeforeAmpCustom :: "element list"
  other :: "element list"
  styleAmpRuntime :: "element option"
  metaCharset :: "element option"
  scriptAmpEngine :: "element option"
  scriptAmpViewer :: "element option"
  scriptGmailAmpViewer :: "element option"
  styleAmpCustom :: "element option"
  linkStylesheetRuntimeCss :: "element option"
  styleAmpBoilerplate :: "element option"
  noscript :: "element option"

definition constructor :: headComponents where
  "constructor = \<lparr>
     metaOther = [],
     scriptNonRenderDelayingExtensions = [],
     scriptRenderDelayingExtensions = [],
     linkIcons = [],
     linkResourceHints = [],
     linkStylesheetBeforeAmpCustom = [],
     other = [],
     styleAmpRuntime = None,
     metaCharset = None,
     scriptAmpEngine = None,
     scriptAmpViewer = None,
     scriptGmailAmpViewer = None,
     styleAmpCustom = None,
     linkStylesheetRuntimeCss = None,
     styleAmpBoilerplate = None,
     noscript = None \<rparr>"

definition appendIfNotNull :: "head \<Rightarrow> element option \<Rightarrow> head" where
  "appendIfNotNull parent el =
     (case el of None \<Rightarrow> parent | Some e \<Rightarrow> appendChild parent e)"

definition appendAll :: "head \<Rightarrow> element list \<Rightarrow> head" where
  "appendAll parent els = foldl appendChild parent els"

definition registerMeta :: "headComponents \<Rightarrow> element \<Rightarrow> headComponents" where
  "registerMeta this el =
     (if hasAttribute el ''charset'' then this\<lparr>metaCharset := Some el\<rparr>
      else if el \<notin> set (metaOther this) then this\<lparr>metaOther := metaOther this @ [el]\<rparr>
      else this)"

definition registerScript :: "headComponents \<Rightarrow> element \<Rightarrow> headComponents" where
  "registerScript this el =
     (let src = getAttribute el ''src'';
          isAsync = hasAttribute el ''async'';
          isExtension = (hasAttribute el ''custom-element'' \<or>
                         hasAttribute el ''custom-template'' \<or>
                         hasAttribute el ''host-service'')
      in
      if isExtension then
        (let custom = getAttribute el ''custom-element'' in
         if custom = Some ''amp-story'' \<or> custom = Some ''amp-experiment'' \<or>
            custom = Some ''amp-dynamic-css-classes''
         then this\<lparr>scriptRenderDelayingExtensions :=
                      scriptRenderDelayingExtensions this @ [el]\<rparr>
         else this\<lparr>scriptNonRenderDelayingExtensions :=
                      scriptNonRenderDelayingExtensions this @ [el]\<rparr>)
      else if isAsync \<and> startsWith src ''https://cdn.ampproject.org/'' \<and>
              (endsWith src ''/v0.js'' \<or> endsWith src ''/v0.js.br'' \<or>
               endsWith src ''/amp4ads-v0.js'' \<or> endsWith src ''/amp4ads-v0.js.br'')
      then this\<lparr>scriptAmpEngine := Some el\<rparr>
      else if isAsync \<and>
              startsWith src ''https://cdn.ampproject.org/v0/amp-viewer-integration-gmail-'' \<and>
              endsWith src ''.js''
      then this\<lparr>scriptGmailAmpViewer := Some el\<rparr>
      else if isAsync \<and>
              (startsWith src ''https://cdn.ampproject.org/v0/amp-viewer-integration-'' \<or>
               (startsWith src ''https://cdn.ampproject.org/viewer/google/v'' \<and>
                endsWith src ''.js''))
      then this\<lparr>scriptAmpViewer := Some el\<rparr>
      else this\<lparr>other := other this @ [el]\<rparr>)"

definition registerStyle :: "headComponents \<Rightarrow> element \<Rightarrow> headComponents" where
  "registerStyle this el =
     (if hasAttribute el ''amp-runtime'' then this\<lparr>styleAmpRuntime := Some el\<rparr>
      else if hasAttribute el ''amp-custom'' then this\<lparr>styleAmpCustom := Some el\<rparr>
      else if hasAttribute el ''amp-boilerplate'' \<or> hasAttribute el ''amp4ads-boilerplate''
      then this\<lparr>styleAmpBoilerplate := Some el\<rparr>
      else this\<lparr>other := other this @ [el]\<rparr>)"

definition registerLink :: "headComponents \<Rightarrow> element \<Rightarrow> headComponents" where
  "registerLink this el =
     (let rel = getAttribute el ''rel'' in
      if rel = Some ''stylesheet'' then
        (if startsWith (getAttribute el ''href'') ''https://cdn.ampproject.org/'' \<and>
            endsWith (getAttribute el ''href'') ''/v0.css''
         then this\<lparr>linkStylesheetRuntimeCss := Some el\<rparr>
         else if styleAmpCustom this = None
         then this\<lparr>linkStylesheetBeforeAmpCustom :=
                      linkStylesheetBeforeAmpCustom this @ [el]\<rparr>
         else this)
      else if rel = Some ''icon'' \<or> rel = Some ''icon shortcut'' \<or>
              rel = Some ''shortcut icon''
      then this\<lparr>linkIcons := linkIcons this @ [el]\<rparr>
      else if rel = Some ''dns-prefetch preconnect''
      then this\<lparr>linkResourceHints := linkResourceHints this @ [el]\<rparr>
      else this\<lparr>other := other this @ [el]\<rparr>)"

text \<open>
  The \<^verbatim>\<open>default:\<close> branch of the switch in \<^verbatim>\<open>reorderHead\<close>, and the switch itself.
  The \<^verbatim>\<open>NOSCRIPT\<close> case has no \<^verbatim>\<open>break\<close>: it sets the slot and goes on into the
  default branch.
\<close>

definition defaultCase :: "headComponents \<Rightarrow> element \<Rightarrow> headComponents" where
  "defaultCase this child =
     (if child \<notin> set (other this) then this\<lparr>other := other this @ [child]\<rparr> else this)"

definition switchTagName :: "headComponents \<Rightarrow> element \<Rightarrow> headComponents" where
  "switchTagName this child =
     (if tagName child = ''META'' then registerMeta this child
      else if tagName child = ''SCRIPT'' then registerScript this child
      else if tagName child = ''STYLE'' then registerStyle this child
      else if tagName child = ''LINK'' then registerLink this child
      else if tagName child = ''NOSCRIPT''
      then defaultCase (this\<lparr>noscript := Some child\<rparr>) child
      else defaultCase this child)"

definition repopulate :: "headComponents \<Rightarrow> head \<Rightarrow> head" where
  "repopulate this h0 =
     (let h1 = appendIfNotNull h0 (metaCharset this);
          h2 = appendIfNotNull h1 (linkStylesheetRuntimeCss this);
          h3 = appendIfNotNull h2 (styleAmpRuntime this);
          h4 = appendAll h3 (metaOther this);
          h5 = appendIfNotNull h4 (scriptAmpEngine this);
          h6 = appendIfNotNull h5 (scriptAmpViewer this);
          h7 = appendIfNotNull h6 (scriptGmailAmpViewer this);
          h8 = appendAll h7 (scriptRenderDelayingExtensions this);
          h9 = appendAll h8 (scriptNonRenderDelayingExtensions this);
          h10 = appendAll h9 (linkIcons this);
          h11 = appendAll h10 (linkResourceHints this);
          h12 = appendAll h11 (linkStylesheetBeforeAmpCustom this);
          h13 = appendIfNotNull h12 (styleAmpCustom this);
          h14 = appendAll h13 (other this);
          h15 = appendIfNotNull h14 (styleAmpBoilerplate this)
      in appendIfNotNull h15 (noscript this))"

text \<open>
  \<^verbatim>\<open>reorderHead\<close> changes the transformer and the head, and returns the head. The
  model returns both. With a \<^verbatim>\<open>null\<close> head the loop is skipped and
  \<^verbatim>\<open>head.innerHTML = ''\<close> is the first statement to run: assigning a property of
  \<^verbatim>\<open>null\<close> raises a \<^verbatim>\<open>TypeError\<close>.
\<close>

definition reorderHead :: "headComponents \<Rightarrow> head option \<Rightarrow> error + (headComponents \<times> head)" where
  "reorderHead this hd_opt =
     (case hd_opt of
        None \<Rightarrow> Inl TypeError
      | Some h \<Rightarrow>
          (let this' = foldl switchTagName this (children h)
           in Inr (this', repopulate this' (clearInnerHTML h))))"

section \<open>The rule that fires for a child\<close>

text \<open>
  For the proofs, the decision of the switch and of the four \<open>register\<close> functions is
  separated from its effect on the registry. \<open>ruleOf\<close> names the branch that a child
  takes; it depends on the child alone. \<open>applyRule\<close> is what that branch does to the
  registry. Lemma \<open>switchTagName_rule\<close> below shows that the two together are the
  switch of the source. Two rules lead into \<open>other\<close>: \<open>OtherPushed\<close> is the unguarded
  \<^verbatim>\<open>push\<close> at the end of \<^verbatim>\<open>registerScript\<close>, \<^verbatim>\<open>registerStyle\<close> and
  \<^verbatim>\<open>registerLink\<close>, \<open>OtherChecked\<close> the \<^verbatim>\<open>default:\<close> branch with its
  \<^verbatim>\<open>includes\<close> test.
\<close>

datatype rule =
    MetaCharset | LinkStylesheetRuntimeCss | StyleAmpRuntime | MetaOther
  | ScriptAmpEngine | ScriptAmpViewer | ScriptGmailAmpViewer
  | ScriptRenderDelaying | ScriptNonRenderDelaying
  | LinkIcons | LinkResourceHints | LinkStylesheet | StyleAmpCustom
  | OtherPushed | OtherChecked | StyleAmpBoilerplate | Noscript

definition scriptRule :: "element \<Rightarrow> rule" where
  "scriptRule el =
     (let src = getAttribute el ''src'';
          isAsync = hasAttribute el ''async''
      in
      if hasAttribute el ''custom-element'' \<or> hasAttribute el ''custom-template'' \<or>
         hasAttribute el ''host-service''
      then (if getAttribute el ''custom-element'' = Some ''amp-story'' \<or>
               getAttribute el ''custom-element'' = Some ''amp-experiment'' \<or>
               getAttribute el ''custom-element'' = Some ''amp-dynamic-css-classes''
            then ScriptRenderDelaying else ScriptNonRenderDelaying)
      else if isAsync \<and> startsWith src ''https://cdn.ampproject.org/'' \<and>
              (endsWith src ''/v0.js'' \<or> endsWith src ''/v0.js.br'' \<or>
               endsWith src ''/amp4ads-v0.js'' \<or> endsWith src ''/amp4ads-v0.js.br'')
      then ScriptAmpEngine
      else if isAsync \<and>
              startsWith src ''https://cdn.ampproject.org/v0/amp-viewer-integration-gmail-'' \<and>
              endsWith src ''.js''
      then ScriptGmailAmpViewer
      else if isAsync \<and>
              (startsWith src ''https://cdn.ampproject.org/v0/amp-viewer-integration-'' \<or>
               (startsWith src ''https://cdn.ampproject.org/viewer/google/v'' \<and>
                endsWith src ''.js''))
      then ScriptAmpViewer
      else OtherPushed)"

definition styleRule :: "element \<Rightarrow> rule" where
  "styleRule el =
     (if hasAttribute el ''amp-runtime'' then StyleAmpRuntime
      else if hasAttribute el ''amp-custom'' then StyleAmpCustom
      else if hasAttribute el ''amp-boilerplate'' \<or> hasAttribute el ''amp4ads-boilerplate''
      then StyleAmpBoilerplate
      else OtherPushed)"

definition linkRule :: "element \<Rightarrow> rule" where
  "linkRule el =
     (let rel = getAttribute el ''rel'' in
      if rel = Some ''stylesheet'' then
        (if startsWith (getAttribute el ''href'') ''https://cdn.ampproject.org/'' \<and>
            endsWith (getAttribute el ''href'') ''/v0.css''
         then LinkStylesheetRuntimeCss else LinkStylesheet)
      else if rel = Some ''icon'' \<or> rel = Some ''icon shortcut'' \<or>
              rel = Some ''shortcut icon''
      then LinkIcons
      else if rel = Some ''dns-prefetch preconnect'' then LinkResourceHints
      else OtherPushed)"

definition ruleOf :: "element \<Rightarrow> rule" where
  "ruleOf child =
     (if tagName child = ''META''
      then (if hasAttribute child ''charset'' then MetaCharset else MetaOther)
      else if tagName child = ''SCRIPT'' then scriptRule child
      else if tagName child = ''STYLE'' then styleRule child
      else if tagName child = ''LINK'' then linkRule child
      else if tagName child = ''NOSCRIPT'' then Noscript
      else OtherChecked)"

definition applyRule :: "rule \<Rightarrow> headComponents \<Rightarrow> element \<Rightarrow> headComponents" where
  "applyRule r this el =
     (case r of
        MetaCharset \<Rightarrow> this\<lparr>metaCharset := Some el\<rparr>
      | LinkStylesheetRuntimeCss \<Rightarrow> this\<lparr>linkStylesheetRuntimeCss := Some el\<rparr>
      | StyleAmpRuntime \<Rightarrow> this\<lparr>styleAmpRuntime := Some el\<rparr>
      | MetaOther \<Rightarrow>
          (if el \<notin> set (metaOther this) then this\<lparr>metaOther := metaOther this @ [el]\<rparr>
           else this)
      | ScriptAmpEngine \<Rightarrow> this\<lparr>scriptAmpEngine := Some el\<rparr>
      | ScriptAmpViewer \<Rightarrow> this\<lparr>scriptAmpViewer := Some el\<rparr>
      | ScriptGmailAmpViewer \<Rightarrow> this\<lparr>scriptGmailAmpViewer := Some el\<rparr>
      | ScriptRenderDelaying \<Rightarrow>
          this\<lparr>scriptRenderDelayingExtensions := scriptRenderDelayingExtensions this @ [el]\<rparr>
      | ScriptNonRenderDelaying \<Rightarrow>
          this\<lparr>scriptNonRenderDelayingExtensions :=
                 scriptNonRenderDelayingExtensions this @ [el]\<rparr>
      | LinkIcons \<Rightarrow> this\<lparr>linkIcons := linkIcons this @ [el]\<rparr>
      | LinkResourceHints \<Rightarrow> this\<lparr>linkResourceHints := linkResourceHints this @ [el]\<rparr>
      | LinkStylesheet \<Rightarrow>
          (if styleAmpCustom this = None
           then this\<lparr>linkStylesheetBeforeAmpCustom :=
                        linkStylesheetBeforeAmpCustom this @ [el]\<rparr>
           else this)
      | StyleAmpCustom \<Rightarrow> this\<lparr>styleAmpCustom := Some el\<rparr>
      | OtherPushed \<Rightarrow> this\<lparr>other := other this @ [el]\<rparr>
      | OtherChecked \<Rightarrow>
          (if el \<notin> set (other this) then this\<lparr>other := other this @ [el]\<rparr> else this)
      | StyleAmpBoilerplate \<Rightarrow> this\<lparr>styleAmpBoilerplate := Some el\<rparr>
      | Noscript \<Rightarrow>
          (if el \<notin> set (other this)
           then this\<lparr>noscript := Some el, other := other this @ [el]\<rparr>
           else this\<lparr>noscript := Some el\<rparr>))"

section \<open>The registry and the output as functions of the children\<close>

text \<open>
  \<open>classified cs\<close> is the registry that a newly constructed transformer holds after
  the loop over the children \<open>cs\<close>, and \<open>reordered cs\<close> the child sequence that
  \<^verbatim>\<open>repopulate\<close> leaves in the head; both are proved equal to what the code computes
  (lemmas \<open>classify_fresh\<close> and \<open>reorderHead_fresh\<close>).
\<close>

definition lastOption :: "'a list \<Rightarrow> 'a option" where
  "lastOption xs = (if xs = [] then None else Some (last xs))"

definition matching :: "rule \<Rightarrow> element list \<Rightarrow> element list" where
  "matching r cs = filter (\<lambda>c. ruleOf c = r) cs"

definition intoOther :: "element \<Rightarrow> bool" where
  "intoOther c = (ruleOf c = OtherPushed \<or> ruleOf c = OtherChecked \<or> ruleOf c = Noscript)"

definition beforeAmpCustom :: "element list \<Rightarrow> element list" where
  "beforeAmpCustom cs = takeWhile (\<lambda>c. ruleOf c \<noteq> StyleAmpCustom) cs"

definition classified :: "element list \<Rightarrow> headComponents" where
  "classified cs = \<lparr>
     metaOther = matching MetaOther cs,
     scriptNonRenderDelayingExtensions = matching ScriptNonRenderDelaying cs,
     scriptRenderDelayingExtensions = matching ScriptRenderDelaying cs,
     linkIcons = matching LinkIcons cs,
     linkResourceHints = matching LinkResourceHints cs,
     linkStylesheetBeforeAmpCustom = matching LinkStylesheet (beforeAmpCustom cs),
     other = filter intoOther cs,
     styleAmpRuntime = lastOption (matching StyleAmpRuntime cs),
     metaCharset = lastOption (matching MetaCharset cs),
     scriptAmpEngine = lastOption (matching ScriptAmpEngine cs),
     scriptAmpViewer = lastOption (matching ScriptAmpViewer cs),
     scriptGmailAmpViewer = lastOption (matching ScriptGmailAmpViewer cs),
     styleAmpCustom = lastOption (matching StyleAmpCustom cs),
     linkStylesheetRuntimeCss = lastOption (matching LinkStylesheetRuntimeCss cs),
     styleAmpBoilerplate = lastOption (matching StyleAmpBoilerplate cs),
     noscript = lastOption (matching Noscript cs) \<rparr>"

definition slotList :: "'a option \<Rightarrow> 'a list" where
  "slotList x = (case x of None \<Rightarrow> [] | Some e \<Rightarrow> [e])"

definition moveToEnd :: "element list \<Rightarrow> element \<Rightarrow> element list" where
  "moveToEnd ys c = removeAll c ys @ [c]"

definition emitted :: "headComponents \<Rightarrow> element list" where
  "emitted this =
     slotList (metaCharset this) @ slotList (linkStylesheetRuntimeCss this) @
     slotList (styleAmpRuntime this) @ metaOther this @
     slotList (scriptAmpEngine this) @ slotList (scriptAmpViewer this) @
     slotList (scriptGmailAmpViewer this) @ scriptRenderDelayingExtensions this @
     scriptNonRenderDelayingExtensions this @ linkIcons this @ linkResourceHints this @
     linkStylesheetBeforeAmpCustom this @ slotList (styleAmpCustom this) @ other this @
     slotList (styleAmpBoilerplate this) @ slotList (noscript this)"

definition single :: "rule \<Rightarrow> element list \<Rightarrow> element list" where
  "single r cs = slotList (lastOption (matching r cs))"

definition otherKept :: "element list \<Rightarrow> element list" where
  "otherKept cs =
     filter (\<lambda>c. intoOther c \<and> Some c \<noteq> lastOption (matching Noscript cs)) cs"

definition beforeOther :: "element list \<Rightarrow> element list" where
  "beforeOther cs =
     single MetaCharset cs @ single LinkStylesheetRuntimeCss cs @
     single StyleAmpRuntime cs @ matching MetaOther cs @
     single ScriptAmpEngine cs @ single ScriptAmpViewer cs @
     single ScriptGmailAmpViewer cs @ matching ScriptRenderDelaying cs @
     matching ScriptNonRenderDelaying cs @ matching LinkIcons cs @
     matching LinkResourceHints cs @ matching LinkStylesheet (beforeAmpCustom cs) @
     single StyleAmpCustom cs"

definition reordered :: "element list \<Rightarrow> element list" where
  "reordered cs =
     beforeOther cs @ otherKept cs @ single StyleAmpBoilerplate cs @ single Noscript cs"

definition beforeStyleAmpCustom :: "element list \<Rightarrow> element list" where
  "beforeStyleAmpCustom cs =
     single MetaCharset cs @ single LinkStylesheetRuntimeCss cs @
     single StyleAmpRuntime cs @ matching MetaOther cs @
     single ScriptAmpEngine cs @ single ScriptAmpViewer cs @
     single ScriptGmailAmpViewer cs @ matching ScriptRenderDelaying cs @
     matching ScriptNonRenderDelaying cs @ matching LinkIcons cs @
     matching LinkResourceHints cs @ matching LinkStylesheet (beforeAmpCustom cs)"

section \<open>Properties of a registry\<close>

text \<open>
  A list bucket keeps the input order when it lists its members in the order in which
  they occur among the children.
\<close>

definition keepsInputOrder :: "element list \<Rightarrow> element list \<Rightarrow> bool" where
  "keepsInputOrder bucket cs = (bucket = filter (\<lambda>c. c \<in> set bucket) cs)"


definition listBucketNodes :: "headComponents \<Rightarrow> element set" where
  "listBucketNodes this =
     set (metaOther this) \<union> set (scriptRenderDelayingExtensions this) \<union>
     set (scriptNonRenderDelayingExtensions this) \<union> set (linkIcons this) \<union>
     set (linkResourceHints this) \<union> set (linkStylesheetBeforeAmpCustom this) \<union>
     set (other this)"


text \<open>
  The nodes that a registry holds are the arguments of the calls of \<^verbatim>\<open>appendChild\<close>
  in \<^verbatim>\<open>repopulate\<close>.
\<close>

definition registryNodes :: "headComponents \<Rightarrow> element set" where
  "registryNodes this = set (emitted this)"

text \<open>
  A child for which every test of its \<open>register\<close> function fails for want of the
  attribute: a \<^verbatim>\<open>SCRIPT\<close> that is no extension and has no \<^verbatim>\<open>src\<close>, a
  \<^verbatim>\<open>STYLE\<close> with none of the four attributes, a \<^verbatim>\<open>LINK\<close> without \<^verbatim>\<open>rel\<close>.
\<close>

definition fallsToOther :: "element \<Rightarrow> bool" where
  "fallsToOther el =
     ((tagName el = ''SCRIPT'' \<and> \<not> hasAttribute el ''custom-element'' \<and>
       \<not> hasAttribute el ''custom-template'' \<and> \<not> hasAttribute el ''host-service'' \<and>
       getAttribute el ''src'' = None) \<or>
      (tagName el = ''STYLE'' \<and> \<not> hasAttribute el ''amp-runtime'' \<and>
       \<not> hasAttribute el ''amp-custom'' \<and> \<not> hasAttribute el ''amp-boilerplate'' \<and>
       \<not> hasAttribute el ''amp4ads-boilerplate'') \<or>
      (tagName el = ''LINK'' \<and> getAttribute el ''rel'' = None))"

section \<open>Example nodes\<close>

text \<open>The nodes of the scenarios, each with its own identity.\<close>

definition exCharsetA :: element where
  "exCharsetA = \<lparr>node_id = 1, tagName = ''META'', attributes = [(''charset'', ''utf-8'')]\<rparr>"

definition exCharsetB :: element where
  "exCharsetB = \<lparr>node_id = 2, tagName = ''META'', attributes = [(''charset'', ''utf-8'')]\<rparr>"

definition exTitle :: element where
  "exTitle = \<lparr>node_id = 3, tagName = ''TITLE'', attributes = []\<rparr>"

definition exNoscript :: element where
  "exNoscript = \<lparr>node_id = 4, tagName = ''NOSCRIPT'', attributes = []\<rparr>"

definition exBoilerplate :: element where
  "exBoilerplate = \<lparr>node_id = 5, tagName = ''STYLE'', attributes = [(''amp-boilerplate'', '''')]\<rparr>"

definition exStory :: element where
  "exStory = \<lparr>node_id = 6, tagName = ''SCRIPT'',
     attributes = [(''src'', ''https://cdn.ampproject.org/v0.js''), (''async'', ''''),
                   (''custom-element'', ''amp-story'')]\<rparr>"

definition exStylesheet :: element where
  "exStylesheet = \<lparr>node_id = 7, tagName = ''LINK'',
     attributes = [(''rel'', ''stylesheet''), (''href'', ''https://example.com/a.css'')]\<rparr>"

definition exCustom :: element where
  "exCustom = \<lparr>node_id = 8, tagName = ''STYLE'', attributes = [(''amp-custom'', '''')]\<rparr>"

definition exScript :: element where
  "exScript = \<lparr>node_id = 9, tagName = ''SCRIPT'',
     attributes = [(''src'', ''https://example.com/x.js'')]\<rparr>"

definition exBase :: element where
  "exBase = \<lparr>node_id = 10, tagName = ''BASE'', attributes = [(''href'', ''/'')]\<rparr>"

definition exAsyncNoSrc :: element where
  "exAsyncNoSrc = \<lparr>node_id = 11, tagName = ''SCRIPT'', attributes = [(''async'', '''')]\<rparr>"

definition exLinkNoRel :: element where
  "exLinkNoRel = \<lparr>node_id = 12, tagName = ''LINK'',
     attributes = [(''href'', ''https://example.com/'')]\<rparr>"

definition exNoscriptB :: element where
  "exNoscriptB = \<lparr>node_id = 13, tagName = ''NOSCRIPT'', attributes = []\<rparr>"

definition exViewport :: element where
  "exViewport = \<lparr>node_id = 14, tagName = ''META'',
     attributes = [(''name'', ''viewport''), (''content'', ''width=device-width'')]\<rparr>"

definition exStylesheetNoHref :: element where
  "exStylesheetNoHref = \<lparr>node_id = 15, tagName = ''LINK'',
     attributes = [(''rel'', ''stylesheet'')]\<rparr>"

section \<open>The switch as a rule and its effect\<close>

lemma applyRule_if:
  "applyRule (if c then r1 else r2) this el =
     (if c then applyRule r1 this el else applyRule r2 this el)"
  by (rule if_distrib)

lemma registerScript_rule: "registerScript this el = applyRule (scriptRule el) this el"
  by (simp only: registerScript_def scriptRule_def Let_def applyRule_if)
     (simp only: applyRule_def rule.case)

lemma registerStyle_rule: "registerStyle this el = applyRule (styleRule el) this el"
  by (simp only: registerStyle_def styleRule_def Let_def applyRule_if)
     (simp only: applyRule_def rule.case)

lemma registerLink_rule: "registerLink this el = applyRule (linkRule el) this el"
  by (simp only: registerLink_def linkRule_def Let_def applyRule_if)
     (simp only: applyRule_def rule.case)

lemma switchTagName_rule: "switchTagName this child = applyRule (ruleOf child) this child"
  apply (simp only: switchTagName_def ruleOf_def registerScript_rule registerStyle_rule
      registerLink_rule applyRule_if)
  apply (simp only: applyRule_def rule.case registerMeta_def defaultCase_def)
  apply (simp cong: if_cong)
  done

section \<open>Classification by a newly constructed transformer\<close>

lemma lastOption_snoc: "lastOption (xs @ [x]) = Some x"
  by (simp add: lastOption_def)

lemma lastOption_Nil: "lastOption [] = None"
  by (simp add: lastOption_def)

lemma lastOption_None_iff: "lastOption xs = None \<longleftrightarrow> xs = []"
  by (simp add: lastOption_def)

lemma matching_snoc:
  "matching r (cs @ [c]) = (if ruleOf c = r then matching r cs @ [c] else matching r cs)"
  by (simp add: matching_def)

lemma matching_Nil: "matching r [] = []"
  by (simp add: matching_def)

lemma matching_empty_iff: "matching r cs = [] \<longleftrightarrow> (\<forall>c\<in>set cs. ruleOf c \<noteq> r)"
  by (simp add: matching_def filter_empty_conv)

lemma takeWhile_all_eq: "(xs = takeWhile P xs) = (\<forall>x\<in>set xs. P x)"
  by (metis takeWhile_eq_all_conv)

lemma beforeAmpCustom_snoc:
  "beforeAmpCustom (cs @ [c]) =
     (if matching StyleAmpCustom cs = [] \<and> ruleOf c \<noteq> StyleAmpCustom
      then beforeAmpCustom cs @ [c] else beforeAmpCustom cs)"
proof (cases "\<forall>x\<in>set cs. ruleOf x \<noteq> StyleAmpCustom")
  case True
  then show ?thesis
    by (simp add: beforeAmpCustom_def matching_empty_iff takeWhile_append takeWhile_all_eq)
next
  case False
  then show ?thesis
    by (auto simp: beforeAmpCustom_def matching_empty_iff takeWhile_append)
qed

lemma classified_snoc:
  assumes "c \<notin> set cs"
  shows "applyRule (ruleOf c) (classified cs) c = classified (cs @ [c])"
proof -
  have notin: "c \<notin> set (matching r cs)" for r
    using assms by (simp add: matching_def)
  show ?thesis
    by (cases "ruleOf c")
      (simp_all add: applyRule_def classified_def matching_snoc lastOption_snoc notin
        intoOther_def beforeAmpCustom_snoc lastOption_None_iff assms)
qed

lemma classify_fresh:
  "distinct cs \<Longrightarrow> foldl switchTagName constructor cs = classified cs"
proof (induction cs rule: rev_induct)
  case Nil
  show ?case
    by (simp add: constructor_def classified_def matching_Nil lastOption_Nil
        beforeAmpCustom_def)
next
  case (snoc c cs)
  then show ?case
    by (simp add: switchTagName_rule classified_snoc)
qed

section \<open>Repopulating the head\<close>

lemma appendAll_Nil: "appendAll h [] = h"
  by (simp add: appendAll_def)

lemma appendAll_append: "appendAll h (xs @ ys) = appendAll (appendAll h xs) ys"
  by (simp add: appendAll_def)

lemma appendIfNotNull_slotList: "appendIfNotNull h x = appendAll h (slotList x)"
  by (cases x) (simp_all add: appendIfNotNull_def appendAll_def slotList_def)

lemma repopulate_emitted: "repopulate this h = appendAll h (emitted this)"
  by (simp only: repopulate_def Let_def emitted_def appendAll_append appendIfNotNull_slotList)

lemma appendAll_children:
  "appendAll h xs = h\<lparr>children := foldl moveToEnd (children h) xs\<rparr>"
proof (induction xs arbitrary: h)
  case Nil
  show ?case by (simp add: appendAll_def)
next
  case (Cons x xs)
  have "appendAll h (x # xs) = appendAll (appendChild h x) xs"
    by (simp add: appendAll_def)
  then show ?case
    by (simp add: Cons.IH appendChild_def moveToEnd_def)
qed

lemma foldl_moveToEnd_distinct:
  "distinct (ys @ xs) \<Longrightarrow> foldl moveToEnd ys xs = ys @ xs"
proof (induction xs arbitrary: ys)
  case Nil
  show ?case by simp
next
  case (Cons x xs)
  from Cons.prems have "x \<notin> set ys" by auto
  then have step: "moveToEnd ys x = ys @ [x]"
    by (simp add: moveToEnd_def)
  from Cons.prems have "distinct ((ys @ [x]) @ xs)" by auto
  then have "foldl moveToEnd (ys @ [x]) xs = (ys @ [x]) @ xs"
    by (rule Cons.IH)
  then show ?case by (simp add: step)
qed

lemma foldl_moveToEnd_snoc:
  "foldl moveToEnd ys (xs @ [x]) = removeAll x (foldl moveToEnd ys xs) @ [x]"
  by (simp add: moveToEnd_def)

lemma set_matching: "set (matching r cs) = {c \<in> set cs. ruleOf c = r}"
  by (auto simp: matching_def)

lemma distinct_matching: "distinct cs \<Longrightarrow> distinct (matching r cs)"
  by (simp add: matching_def)

lemma single_cases: "single r cs = [] \<or> single r cs = [last (matching r cs)]"
  by (simp add: single_def slotList_def lastOption_def)

lemma in_single: "x \<in> set (single r cs) \<Longrightarrow> ruleOf x = r \<and> x \<in> set cs"
proof -
  assume a: "x \<in> set (single r cs)"
  then have ne: "matching r cs \<noteq> []" and x: "x = last (matching r cs)"
    by (auto simp: single_def slotList_def lastOption_def split: if_splits)
  from ne have "last (matching r cs) \<in> set (matching r cs)" by (rule last_in_set)
  with x show ?thesis by (simp add: set_matching)
qed

lemma distinct_single: "distinct (single r cs)"
  using single_cases[of r cs] by auto

lemma in_matching: "x \<in> set (matching r cs) \<Longrightarrow> ruleOf x = r \<and> x \<in> set cs"
  by (simp add: set_matching)

lemma in_beforeAmpCustom: "x \<in> set (beforeAmpCustom cs) \<Longrightarrow> x \<in> set cs"
  by (auto simp: beforeAmpCustom_def dest: set_takeWhileD)

lemma distinct_beforeAmpCustom: "distinct cs \<Longrightarrow> distinct (beforeAmpCustom cs)"
  by (simp add: beforeAmpCustom_def)

lemma in_otherKept:
  "x \<in> set (otherKept cs) \<Longrightarrow>
     (ruleOf x = OtherPushed \<or> ruleOf x = OtherChecked \<or> ruleOf x = Noscript) \<and> x \<in> set cs"
  by (auto simp: otherKept_def intoOther_def)

lemma in_beforeOther:
  "x \<in> set (beforeOther cs) \<Longrightarrow>
     ruleOf x \<notin> {OtherPushed, OtherChecked, Noscript, StyleAmpBoilerplate} \<and> x \<in> set cs"
  by (auto simp: beforeOther_def dest!: in_single in_matching dest: in_beforeAmpCustom)

lemma distinct_beforeOther:
  assumes "distinct cs"
  shows "distinct (beforeOther cs)"
  using assms
  by (auto simp: beforeOther_def distinct_single distinct_matching distinct_beforeAmpCustom
      dest!: in_single in_matching)

lemma emitted_classified:
  "emitted (classified cs) =
     beforeOther cs @ filter intoOther cs @ single StyleAmpBoilerplate cs @ single Noscript cs"
  by (simp add: emitted_def classified_def beforeOther_def single_def)

lemma distinct_upto_boilerplate:
  assumes "distinct cs"
  shows "distinct (beforeOther cs @ filter intoOther cs @ single StyleAmpBoilerplate cs)"
  using assms
  by (auto simp: distinct_beforeOther distinct_single intoOther_def
      dest!: in_beforeOther in_single)

lemma moved_noscript:
  assumes "distinct cs"
  shows "foldl moveToEnd [] (emitted (classified cs)) = reordered cs"
proof (cases "matching Noscript cs = []")
  case True
  then have "single Noscript cs = []" "otherKept cs = filter intoOther cs"
    by (simp_all add: single_def otherKept_def lastOption_def slotList_def)
  then show ?thesis
    using foldl_moveToEnd_distinct[of "[]", simplified, OF distinct_upto_boilerplate[OF assms]]
    by (simp add: emitted_classified reordered_def)
next
  case False
  define n where "n = last (matching Noscript cs)"
  from False have lo: "lastOption (matching Noscript cs) = Some n"
    by (simp add: lastOption_def n_def)
  then have s: "single Noscript cs = [n]"
    by (simp add: single_def slotList_def)
  then have "n \<in> set (single Noscript cs)" by simp
  then have rn: "ruleOf n = Noscript" by (auto dest: in_single)
  have n1: "n \<notin> set (beforeOther cs)"
    using rn by (auto dest: in_beforeOther)
  have n2: "n \<notin> set (single StyleAmpBoilerplate cs)"
    using rn by (auto dest: in_single)
  have ok: "removeAll n (filter intoOther cs) = otherKept cs"
    by (auto simp: removeAll_filter_not_eq otherKept_def lo intro: filter_cong)
  have "foldl moveToEnd [] (emitted (classified cs)) =
        removeAll n (foldl moveToEnd []
          (beforeOther cs @ filter intoOther cs @ single StyleAmpBoilerplate cs)) @ [n]"
    using foldl_moveToEnd_snoc[of "[]"
        "beforeOther cs @ filter intoOther cs @ single StyleAmpBoilerplate cs" n]
    by (simp add: emitted_classified s)
  also have "\<dots> = removeAll n
          (beforeOther cs @ filter intoOther cs @ single StyleAmpBoilerplate cs) @ [n]"
    using foldl_moveToEnd_distinct[of "[]", simplified, OF distinct_upto_boilerplate[OF assms]]
    by simp
  also have "\<dots> = reordered cs"
    using n1 n2 by (simp add: reordered_def s ok removeAll_id)
  finally show ?thesis .
qed

lemma reorderHead_fresh:
  assumes "distinct (children h)"
  shows "reorderHead constructor (Some h) =
           Inr (classified (children h), h\<lparr>children := reordered (children h)\<rparr>)"
  using assms
  by (simp add: reorderHead_def Let_def classify_fresh repopulate_emitted appendAll_children
      clearInnerHTML_def moved_noscript)

lemma otherKept_single_Noscript:
  "x \<in> set (otherKept cs) \<Longrightarrow> x \<notin> set (single Noscript cs)"
  by (auto simp: otherKept_def single_def slotList_def split: option.splits)

lemma distinct_reordered:
  assumes "distinct cs"
  shows "distinct (reordered cs)"
proof -
  have d: "distinct (otherKept cs)" using assms by (simp add: otherKept_def)
  have a: "set (beforeOther cs) \<inter> set (otherKept cs) = {}"
    by (auto dest!: in_beforeOther in_otherKept)
  have b: "set (beforeOther cs) \<inter> set (single StyleAmpBoilerplate cs) = {}"
    by (auto dest!: in_beforeOther in_single)
  have c: "set (beforeOther cs) \<inter> set (single Noscript cs) = {}"
    by (auto dest!: in_beforeOther in_single)
  have e: "set (otherKept cs) \<inter> set (single StyleAmpBoilerplate cs) = {}"
    by (auto dest!: in_otherKept in_single)
  have f: "set (otherKept cs) \<inter> set (single Noscript cs) = {}"
    by (auto dest: otherKept_single_Noscript)
  have g: "set (single StyleAmpBoilerplate cs) \<inter> set (single Noscript cs) = {}"
    by (auto dest!: in_single)
  show ?thesis
    unfolding reordered_def
    using assms d a b c e f g
    by (simp add: distinct_beforeOther distinct_single Int_Un_distrib)
qed

section \<open>Reordering a reordered head\<close>

lemma matching_append: "matching r (xs @ ys) = matching r xs @ matching r ys"
  by (simp add: matching_def)

lemma matching_matching:
  "matching r (matching r' xs) = (if r = r' then matching r xs else [])"
  by (auto simp: matching_def filter_empty_conv intro: filter_cong)

lemma matching_single:
  "matching r (single r' cs) = (if r = r' then single r cs else [])"
  using single_cases[of r' cs] in_single[of _ r' cs]
  by (auto simp: matching_def)

lemma matching_otherKept_none:
  "r \<noteq> OtherPushed \<Longrightarrow> r \<noteq> OtherChecked \<Longrightarrow> r \<noteq> Noscript \<Longrightarrow>
     matching r (otherKept cs) = []"
  by (auto simp: matching_def otherKept_def intoOther_def filter_empty_conv)

lemma lastOption_slotList: "lastOption (slotList x) = x"
  by (cases x) (simp_all add: lastOption_def slotList_def)

lemma single_lastOption: "lastOption (single r cs) = lastOption (matching r cs)"
  by (simp add: single_def lastOption_slotList)

lemma matching_reordered_list:
  assumes "r = MetaOther \<or> r = ScriptRenderDelaying \<or> r = ScriptNonRenderDelaying \<or>
           r = LinkIcons \<or> r = LinkResourceHints"
  shows "matching r (reordered cs) = matching r cs"
  using assms
  by (auto simp: reordered_def beforeOther_def matching_append matching_matching
      matching_single matching_otherKept_none)

lemma matching_reordered_slot:
  assumes "r = MetaCharset \<or> r = LinkStylesheetRuntimeCss \<or> r = StyleAmpRuntime \<or>
           r = ScriptAmpEngine \<or> r = ScriptAmpViewer \<or> r = ScriptGmailAmpViewer \<or>
           r = StyleAmpCustom \<or> r = StyleAmpBoilerplate"
  shows "matching r (reordered cs) = single r cs"
  using assms
  by (auto simp: reordered_def beforeOther_def matching_append matching_matching
      matching_single matching_otherKept_none)

lemma single_reordered:
  assumes "r = MetaCharset \<or> r = LinkStylesheetRuntimeCss \<or> r = StyleAmpRuntime \<or>
           r = ScriptAmpEngine \<or> r = ScriptAmpViewer \<or> r = ScriptGmailAmpViewer \<or>
           r = StyleAmpCustom \<or> r = StyleAmpBoilerplate"
  shows "single r (reordered cs) = single r cs"
  using matching_reordered_slot[OF assms, of cs]
  by (simp add: single_def[of r "reordered cs"] single_lastOption) (simp add: single_def)

lemma matching_Noscript_reordered:
  "matching Noscript (reordered cs) = matching Noscript (otherKept cs) @ single Noscript cs"
  by (simp add: reordered_def beforeOther_def matching_append matching_matching
      matching_single)

lemma lastOption_Noscript_reordered:
  "lastOption (matching Noscript (reordered cs)) = lastOption (matching Noscript cs)"
proof (cases "matching Noscript cs = []")
  case True
  then have "single Noscript cs = []" by (simp add: single_def lastOption_def slotList_def)
  moreover have "matching Noscript (otherKept cs) = []"
    using True by (auto simp: matching_def otherKept_def filter_empty_conv)
  ultimately show ?thesis
    using True by (simp add: matching_Noscript_reordered)
next
  case False
  then have "single Noscript cs = [last (matching Noscript cs)]"
    by (simp add: single_def lastOption_def slotList_def)
  then show ?thesis
    using False by (simp add: matching_Noscript_reordered lastOption_def)
qed

lemma single_Noscript_reordered: "single Noscript (reordered cs) = single Noscript cs"
  by (simp add: single_def lastOption_Noscript_reordered)

lemma otherKept_reordered: "otherKept (reordered cs) = otherKept cs"
proof -
  let ?Q = "\<lambda>c. intoOther c \<and> Some c \<noteq> lastOption (matching Noscript cs)"
  have a: "filter ?Q (beforeOther cs) = []"
    by (auto simp: filter_empty_conv intoOther_def dest!: in_beforeOther)
  have b: "filter ?Q (otherKept cs) = otherKept cs"
    by (simp add: otherKept_def)
  have c: "filter ?Q (single StyleAmpBoilerplate cs) = []"
    by (auto simp: filter_empty_conv intoOther_def dest!: in_single)
  have d: "filter ?Q (single Noscript cs) = []"
    by (auto simp: filter_empty_conv single_def slotList_def split: option.splits)
  show ?thesis
    by (simp add: otherKept_def[of "reordered cs"] lastOption_Noscript_reordered)
       (simp add: reordered_def a b c d)
qed

lemma beforeOther_split:
  "beforeOther cs = beforeStyleAmpCustom cs @ single StyleAmpCustom cs"
  by (simp add: beforeOther_def beforeStyleAmpCustom_def)

lemma in_beforeStyleAmpCustom:
  "x \<in> set (beforeStyleAmpCustom cs) \<Longrightarrow> ruleOf x \<noteq> StyleAmpCustom"
  by (auto simp: beforeStyleAmpCustom_def dest!: in_single in_matching)

lemma matching_LinkStylesheet_prefix:
  "matching LinkStylesheet (beforeStyleAmpCustom cs) =
     matching LinkStylesheet (beforeAmpCustom cs)"
  by (simp add: beforeStyleAmpCustom_def matching_append matching_matching matching_single)

lemma beforeAmpCustom_all:
  "(\<forall>x\<in>set xs. ruleOf x \<noteq> StyleAmpCustom) \<Longrightarrow> beforeAmpCustom xs = xs"
  by (simp add: beforeAmpCustom_def)

lemma beforeAmpCustom_stop:
  "(\<forall>x\<in>set xs. ruleOf x \<noteq> StyleAmpCustom) \<Longrightarrow> ruleOf c = StyleAmpCustom \<Longrightarrow>
     beforeAmpCustom (xs @ c # ys) = xs"
  by (simp add: beforeAmpCustom_def takeWhile_append)

lemma linkStylesheet_reordered:
  "matching LinkStylesheet (beforeAmpCustom (reordered cs)) =
     matching LinkStylesheet (beforeAmpCustom cs)"
proof (cases "matching StyleAmpCustom cs = []")
  case True
  then have s: "single StyleAmpCustom cs = []"
    by (simp add: single_def lastOption_def slotList_def)
  have "\<forall>x\<in>set (reordered cs). ruleOf x \<noteq> StyleAmpCustom"
    using True
    by (auto simp: reordered_def matching_empty_iff
        dest!: in_beforeOther in_otherKept in_single)
  then have "beforeAmpCustom (reordered cs) = reordered cs"
    by (rule beforeAmpCustom_all)
  then show ?thesis
    by (simp add: reordered_def beforeOther_split s matching_append
        matching_LinkStylesheet_prefix matching_otherKept_none matching_single)
next
  case False
  then have s: "single StyleAmpCustom cs = [last (matching StyleAmpCustom cs)]"
    by (simp add: single_def lastOption_def slotList_def)
  then have "last (matching StyleAmpCustom cs) \<in> set (single StyleAmpCustom cs)" by simp
  then have r: "ruleOf (last (matching StyleAmpCustom cs)) = StyleAmpCustom"
    by (auto dest: in_single)
  have "beforeAmpCustom (reordered cs) = beforeStyleAmpCustom cs"
    using beforeAmpCustom_stop[of "beforeStyleAmpCustom cs" "last (matching StyleAmpCustom cs)"
        "otherKept cs @ single StyleAmpBoilerplate cs @ single Noscript cs"] r
    by (simp add: reordered_def beforeOther_split s in_beforeStyleAmpCustom)
  then show ?thesis
    by (simp add: matching_LinkStylesheet_prefix)
qed

lemma beforeOther_reordered: "beforeOther (reordered cs) = beforeOther cs"
  by (simp add: beforeOther_def[of "reordered cs"] single_reordered matching_reordered_list
      linkStylesheet_reordered)
     (simp add: beforeOther_def)

lemma reordered_idem: "reordered (reordered cs) = reordered cs"
  by (simp add: reordered_def[of "reordered cs"] beforeOther_reordered otherKept_reordered
      single_reordered single_Noscript_reordered)
     (simp add: reordered_def)

section \<open>Evaluation and further facts about the rules\<close>

lemmas ex_defs = exCharsetA_def exCharsetB_def exTitle_def exNoscript_def exBoilerplate_def
  exStory_def exStylesheet_def exCustom_def exScript_def exBase_def exAsyncNoSrc_def
  exLinkNoRel_def

lemmas run_defs = reorderHead_def switchTagName_def registerMeta_def registerScript_def
  registerStyle_def registerLink_def defaultCase_def repopulate_def appendIfNotNull_def
  appendAll_def appendChild_def clearInnerHTML_def hasAttribute_def getAttribute_def
  constructor_def Let_def

lemma in_if: "(if b then x else y) \<in> S \<longleftrightarrow> (if b then x \<in> S else y \<in> S)"
  by simp

lemma scriptRule_range:
  "scriptRule el \<in> {ScriptRenderDelaying, ScriptNonRenderDelaying, ScriptAmpEngine,
     ScriptGmailAmpViewer, ScriptAmpViewer, OtherPushed}"
  by (simp only: scriptRule_def Let_def in_if) (simp cong: if_cong)

lemma styleRule_range:
  "styleRule el \<in> {StyleAmpRuntime, StyleAmpCustom, StyleAmpBoilerplate, OtherPushed}"
  by (simp only: styleRule_def Let_def in_if) (simp cong: if_cong)

lemma linkRule_range:
  "linkRule el \<in> {LinkStylesheetRuntimeCss, LinkStylesheet, LinkIcons, LinkResourceHints,
     OtherPushed}"
  by (simp only: linkRule_def Let_def in_if) (simp cong: if_cong)


lemma ruleOf_Noscript_iff: "ruleOf c = Noscript \<longleftrightarrow> tagName c = ''NOSCRIPT''"
proof -
  have "scriptRule c \<noteq> Noscript" using scriptRule_range[of c] by auto
  moreover have "styleRule c \<noteq> Noscript" using styleRule_range[of c] by auto
  moreover have "linkRule c \<noteq> Noscript" using linkRule_range[of c] by auto
  ultimately show ?thesis by (simp add: ruleOf_def)
qed

lemma ruleOf_LinkStylesheet:
  assumes "tagName l = ''LINK''" and "getAttribute l ''rel'' = Some ''stylesheet''"
    and "\<not> (startsWith (getAttribute l ''href'') ''https://cdn.ampproject.org/'' \<and>
            endsWith (getAttribute l ''href'') ''/v0.css'')"
  shows "ruleOf l = LinkStylesheet"
proof -
  have "ruleOf l = linkRule l" using assms(1) by (simp add: ruleOf_def)
  moreover have "linkRule l = LinkStylesheet"
    using assms(2,3) by (simp add: linkRule_def Let_def del: startsWith.simps endsWith.simps)
  ultimately show ?thesis by simp
qed

lemma filter_in_filter_takeWhile:
  assumes "distinct cs"
  shows "filter (\<lambda>c. c \<in> set (filter P (takeWhile Q cs))) cs = filter P (takeWhile Q cs)"
proof -
  have split: "cs = takeWhile Q cs @ dropWhile Q cs" by simp
  have dis: "set (takeWhile Q cs) \<inter> set (dropWhile Q cs) = {}"
    using assms distinct_append[of "takeWhile Q cs" "dropWhile Q cs"] by simp
  have a: "filter (\<lambda>c. c \<in> set (filter P (takeWhile Q cs))) (takeWhile Q cs)
             = filter P (takeWhile Q cs)"
    by (auto intro: filter_cong)
  have b: "filter (\<lambda>c. c \<in> set (filter P (takeWhile Q cs))) (dropWhile Q cs) = []"
    using dis by (auto simp: filter_empty_conv)
  have "filter (\<lambda>c. c \<in> set (filter P (takeWhile Q cs))) (takeWhile Q cs @ dropWhile Q cs)
          = filter P (takeWhile Q cs)"
    by (simp only: filter_append a b append_Nil2)
  then show ?thesis by simp
qed

lemma keepsInputOrder_filter: "keepsInputOrder (filter P cs) cs"
  by (auto simp: keepsInputOrder_def intro: filter_cong)

lemma keepsInputOrder_matching: "keepsInputOrder (matching r cs) cs"
  by (simp add: matching_def keepsInputOrder_filter)

lemma keepsInputOrder_beforeAmpCustom:
  "distinct cs \<Longrightarrow> keepsInputOrder (matching LinkStylesheet (beforeAmpCustom cs)) cs"
  unfolding keepsInputOrder_def matching_def beforeAmpCustom_def
  by (rule filter_in_filter_takeWhile[symmetric])

lemma reordered_classified:
  "reordered cs =
     slotList (metaCharset (classified cs)) @
     slotList (linkStylesheetRuntimeCss (classified cs)) @
     slotList (styleAmpRuntime (classified cs)) @
     metaOther (classified cs) @
     slotList (scriptAmpEngine (classified cs)) @
     slotList (scriptAmpViewer (classified cs)) @
     slotList (scriptGmailAmpViewer (classified cs)) @
     scriptRenderDelayingExtensions (classified cs) @
     scriptNonRenderDelayingExtensions (classified cs) @
     linkIcons (classified cs) @
     linkResourceHints (classified cs) @
     linkStylesheetBeforeAmpCustom (classified cs) @
     slotList (styleAmpCustom (classified cs)) @
     filter (\<lambda>c. Some c \<noteq> noscript (classified cs)) (other (classified cs)) @
     slotList (styleAmpBoilerplate (classified cs)) @
     slotList (noscript (classified cs))"
  by (simp add: reordered_def beforeOther_def otherKept_def single_def classified_def
      conj_commute)



lemma matching_LinkStylesheet_reordered:
  "matching LinkStylesheet (reordered cs) = matching LinkStylesheet (beforeAmpCustom cs)"
  by (simp add: reordered_def beforeOther_def matching_append matching_matching
      matching_single matching_otherKept_none)

lemma styleAmpCustom_classified_None:
  "styleAmpCustom (classified pre) = None \<longleftrightarrow> (\<forall>x\<in>set pre. ruleOf x \<noteq> StyleAmpCustom)"
  by (simp add: classified_def lastOption_None_iff matching_empty_iff)

lemma in_beforeAmpCustom_iff:
  assumes "distinct (pre @ l # post)" and "ruleOf l \<noteq> StyleAmpCustom"
  shows "l \<in> set (beforeAmpCustom (pre @ l # post)) \<longleftrightarrow>
           (\<forall>x\<in>set pre. ruleOf x \<noteq> StyleAmpCustom)"
proof (cases "\<forall>x\<in>set pre. ruleOf x \<noteq> StyleAmpCustom")
  case True
  then show ?thesis
    using assms(2) by (simp add: beforeAmpCustom_def takeWhile_append)
next
  case False
  have "l \<notin> set pre" using assms(1) by simp
  then have "l \<notin> set (takeWhile (\<lambda>c. ruleOf c \<noteq> StyleAmpCustom) pre)"
    by (auto dest: set_takeWhileD)
  then show ?thesis
    using False by (auto simp: beforeAmpCustom_def takeWhile_append)
qed

lemma matching_Noscript: "matching Noscript cs = filter (\<lambda>d. tagName d = ''NOSCRIPT'') cs"
  by (simp add: matching_def ruleOf_Noscript_iff)

lemma listBucketNodes_applyRule:
  "listBucketNodes this \<subseteq> listBucketNodes (applyRule r this el)"
  by (cases r) (auto simp: applyRule_def listBucketNodes_def)

lemma listBucketNodes_foldl:
  "listBucketNodes this \<subseteq> listBucketNodes (foldl switchTagName this cs)"
proof (induction cs arbitrary: this)
  case Nil
  show ?case by simp
next
  case (Cons c cs)
  have "listBucketNodes this \<subseteq> listBucketNodes (switchTagName this c)"
    by (simp add: switchTagName_rule listBucketNodes_applyRule)
  also have "\<dots> \<subseteq> listBucketNodes (foldl switchTagName (switchTagName this c) cs)"
    by (rule Cons.IH)
  finally show ?case by simp
qed

lemma set_foldl_moveToEnd: "set (foldl moveToEnd ys xs) = set ys \<union> set xs"
  by (induction xs arbitrary: ys) (auto simp: moveToEnd_def)

lemma listBucketNodes_emitted: "listBucketNodes this \<subseteq> set (emitted this)"
  by (auto simp: listBucketNodes_def emitted_def)

lemmas ex_defs2 = exNoscriptB_def exViewport_def exStylesheetNoHref_def

lemma set_children_repopulate:
  "set (children (repopulate this (clearInnerHTML h))) = registryNodes this"
  by (simp add: repopulate_emitted appendAll_children set_foldl_moveToEnd clearInnerHTML_def
      registryNodes_def)

lemma registryNodes_applyRule:
  "registryNodes (applyRule r this c) \<subseteq> insert c (registryNodes this)"
  by (cases r)
     (auto simp: applyRule_def registryNodes_def emitted_def slotList_def split: option.splits)

lemma registryNodes_foldl:
  "registryNodes (foldl switchTagName this cs) \<subseteq> set cs \<union> registryNodes this"
proof (induction cs arbitrary: this)
  case Nil
  show ?case by simp
next
  case (Cons c cs)
  have "registryNodes (foldl switchTagName (switchTagName this c) cs)
          \<subseteq> set cs \<union> registryNodes (switchTagName this c)"
    by (rule Cons.IH)
  also have "\<dots> \<subseteq> set cs \<union> insert c (registryNodes this)"
    using registryNodes_applyRule[of "ruleOf c" this c]
    by (auto simp: switchTagName_rule)
  finally show ?case by auto
qed

lemma listBucketNodes_registryNodes: "listBucketNodes this \<subseteq> registryNodes this"
  by (simp add: registryNodes_def listBucketNodes_emitted)

lemma linkStylesheet_step:
  assumes "ruleOf l = LinkStylesheet"
  shows "switchTagName this l =
     (if styleAmpCustom this = None
      then this\<lparr>linkStylesheetBeforeAmpCustom := linkStylesheetBeforeAmpCustom this @ [l]\<rparr>
      else this)"
  using assms by (simp add: switchTagName_rule applyRule_def)

lemma in_linkStylesheet_foldl:
  "l \<in> set (linkStylesheetBeforeAmpCustom this) \<Longrightarrow>
     l \<in> set (linkStylesheetBeforeAmpCustom (foldl switchTagName this cs))"
proof (induction cs arbitrary: this)
  case Nil
  then show ?case by simp
next
  case (Cons c cs)
  have "l \<in> set (linkStylesheetBeforeAmpCustom (switchTagName this c))"
    using Cons.prems
    by (cases "ruleOf c") (simp_all add: switchTagName_rule applyRule_def)
  then show ?case using Cons.IH by simp
qed

lemma noscript_step:
  assumes "tagName c = ''NOSCRIPT''"
  shows "switchTagName this c =
     (if c \<in> set (other this) then this\<lparr>noscript := Some c\<rparr>
      else this\<lparr>noscript := Some c, other := other this @ [c]\<rparr>)"
  using assms by (simp add: switchTagName_def defaultCase_def)

lemma noscript_applyRule:
  "noscript (applyRule r this c) = (if r = Noscript then Some c else noscript this)"
  by (cases r) (simp_all add: applyRule_def)

lemma noscript_foldl:
  "noscript (foldl switchTagName this cs) =
     (if matching Noscript cs = [] then noscript this
      else Some (last (matching Noscript cs)))"
proof (induction cs rule: rev_induct)
  case Nil
  show ?case by (simp add: matching_Nil)
next
  case (snoc c cs)
  have "foldl switchTagName this (cs @ [c]) = switchTagName (foldl switchTagName this cs) c"
    by simp
  also have "\<dots> = applyRule (ruleOf c) (foldl switchTagName this cs) c"
    by (rule switchTagName_rule)
  finally have "noscript (foldl switchTagName this (cs @ [c])) =
      (if ruleOf c = Noscript then Some c else noscript (foldl switchTagName this cs))"
    by (simp only: noscript_applyRule)
  then show ?case
    by (simp add: matching_snoc snoc.IH)
qed

lemma other_applyRule: "set (other this) \<subseteq> set (other (applyRule r this c))"
  by (cases r) (auto simp: applyRule_def)

lemma other_foldl: "x \<in> set (other this) \<Longrightarrow> x \<in> set (other (foldl switchTagName this cs))"
proof (induction cs arbitrary: this)
  case Nil
  then show ?case by simp
next
  case (Cons c cs)
  have "x \<in> set (other (switchTagName this c))"
    using Cons.prems other_applyRule[of this "ruleOf c" c] by (auto simp: switchTagName_rule)
  then show ?case using Cons.IH by simp
qed

lemma noscript_in_other_foldl:
  "d \<in> set cs \<Longrightarrow> tagName d = ''NOSCRIPT'' \<Longrightarrow>
     d \<in> set (other (foldl switchTagName this cs))"
proof (induction cs arbitrary: this)
  case Nil
  then show ?case by simp
next
  case (Cons c cs)
  show ?case
  proof (cases "d = c")
    case True
    then have "d \<in> set (other (switchTagName this c))"
      using Cons.prems(2) by (simp add: noscript_step)
    then show ?thesis by (simp add: other_foldl)
  next
    case False
    then have "d \<in> set cs" using Cons.prems(1) by simp
    then show ?thesis using Cons.IH Cons.prems(2) by simp
  qed
qed

lemma repopulate_noscript_last:
  assumes "noscript this = Some c"
  shows "\<exists>ys. children (repopulate this h) = ys @ [c] \<and> c \<notin> set ys"
proof -
  let ?xs = "slotList (metaCharset this) @ slotList (linkStylesheetRuntimeCss this) @
     slotList (styleAmpRuntime this) @ metaOther this @
     slotList (scriptAmpEngine this) @ slotList (scriptAmpViewer this) @
     slotList (scriptGmailAmpViewer this) @ scriptRenderDelayingExtensions this @
     scriptNonRenderDelayingExtensions this @ linkIcons this @ linkResourceHints this @
     linkStylesheetBeforeAmpCustom this @ slotList (styleAmpCustom this) @ other this @
     slotList (styleAmpBoilerplate this)"
  have e: "emitted this = ?xs @ [c]"
    using assms by (simp add: emitted_def slotList_def)
  have "children (repopulate this h) = foldl moveToEnd (children h) (?xs @ [c])"
    by (simp only: repopulate_emitted appendAll_children e) simp
  also have "\<dots> = removeAll c (foldl moveToEnd (children h) ?xs) @ [c]"
    by (rule foldl_moveToEnd_snoc)
  finally show ?thesis by auto
qed




lemma fallsToOther_step:
  assumes "fallsToOther el"
  shows "switchTagName this el = this\<lparr>other := other this @ [el]\<rparr>"
proof -
  consider
    (script) "tagName el = ''SCRIPT''" "\<not> hasAttribute el ''custom-element''"
      "\<not> hasAttribute el ''custom-template''" "\<not> hasAttribute el ''host-service''"
      "getAttribute el ''src'' = None"
  | (style) "tagName el = ''STYLE''" "\<not> hasAttribute el ''amp-runtime''"
      "\<not> hasAttribute el ''amp-custom''" "\<not> hasAttribute el ''amp-boilerplate''"
      "\<not> hasAttribute el ''amp4ads-boilerplate''"
  | (link) "tagName el = ''LINK''" "getAttribute el ''rel'' = None"
    using assms unfolding fallsToOther_def by (elim disjE conjE) blast+
  then show ?thesis
  proof cases
    case script
    then have "switchTagName this el = registerScript this el"
      by (simp add: switchTagName_def)
    also have "\<dots> = this\<lparr>other := other this @ [el]\<rparr>"
      using script by (simp add: registerScript_def Let_def)
    finally show ?thesis .
  next
    case style
    then have "switchTagName this el = registerStyle this el"
      by (simp add: switchTagName_def)
    also have "\<dots> = this\<lparr>other := other this @ [el]\<rparr>"
      using style by (simp add: registerStyle_def)
    finally show ?thesis .
  next
    case link
    then have "switchTagName this el = registerLink this el"
      by (simp add: switchTagName_def)
    also have "\<dots> = this\<lparr>other := other this @ [el]\<rparr>"
      using link by (simp add: registerLink_def Let_def)
    finally show ?thesis .
  qed
qed

lemma fallsToOther_foldl:
  "(\<forall>c\<in>set cs. fallsToOther c) \<Longrightarrow>
     foldl switchTagName this cs = this\<lparr>other := other this @ cs\<rparr>"
proof (induction cs arbitrary: this)
  case Nil
  show ?case by simp
next
  case (Cons c cs)
  then have "switchTagName this c = this\<lparr>other := other this @ [c]\<rparr>"
    by (simp add: fallsToOther_step)
  moreover have "foldl switchTagName (this\<lparr>other := other this @ [c]\<rparr>) cs =
      (this\<lparr>other := other this @ [c]\<rparr>)\<lparr>other := other (this\<lparr>other := other this @ [c]\<rparr>) @ cs\<rparr>"
    using Cons.prems by (intro Cons.IH) simp
  ultimately show ?case by simp
qed

section \<open>Properties of the transformer\<close>

subsection \<open>C1: the fixed order of the output\<close>

text \<open>
  C1, as amended. A newly constructed transformer, given a head whose children are
  distinct nodes, returns the head with its children in the sixteen steps of
  \<^verbatim>\<open>repopulate\<close>, in that order: the nine single slots where they are filled and the
  seven lists whole, except that step 14 (\<open>other\<close>) leaves out the node held in the
  \<open>noscript\<close> slot, which \<^verbatim>\<open>appendChild\<close> moves to step 16. Every list bucket holds
  its nodes in the order of the input children.
\<close>

theorem reorderHead_fixed_order:
  assumes "distinct (children h)"
  shows "\<exists>this'.
     reorderHead constructor (Some h) =
       Inr (this', h\<lparr>children :=
         slotList (metaCharset this') @
         slotList (linkStylesheetRuntimeCss this') @
         slotList (styleAmpRuntime this') @
         metaOther this' @
         slotList (scriptAmpEngine this') @
         slotList (scriptAmpViewer this') @
         slotList (scriptGmailAmpViewer this') @
         scriptRenderDelayingExtensions this' @
         scriptNonRenderDelayingExtensions this' @
         linkIcons this' @
         linkResourceHints this' @
         linkStylesheetBeforeAmpCustom this' @
         slotList (styleAmpCustom this') @
         filter (\<lambda>c. Some c \<noteq> noscript this') (other this') @
         slotList (styleAmpBoilerplate this') @
         slotList (noscript this')\<rparr>) \<and>
     keepsInputOrder (metaOther this') (children h) \<and>
     keepsInputOrder (scriptRenderDelayingExtensions this') (children h) \<and>
     keepsInputOrder (scriptNonRenderDelayingExtensions this') (children h) \<and>
     keepsInputOrder (linkIcons this') (children h) \<and>
     keepsInputOrder (linkResourceHints this') (children h) \<and>
     keepsInputOrder (linkStylesheetBeforeAmpCustom this') (children h) \<and>
     keepsInputOrder (other this') (children h)"
proof (intro exI[of _ "classified (children h)"] conjI)
  show "reorderHead constructor (Some h) =
       Inr (classified (children h), h\<lparr>children :=
         slotList (metaCharset (classified (children h))) @
         slotList (linkStylesheetRuntimeCss (classified (children h))) @
         slotList (styleAmpRuntime (classified (children h))) @
         metaOther (classified (children h)) @
         slotList (scriptAmpEngine (classified (children h))) @
         slotList (scriptAmpViewer (classified (children h))) @
         slotList (scriptGmailAmpViewer (classified (children h))) @
         scriptRenderDelayingExtensions (classified (children h)) @
         scriptNonRenderDelayingExtensions (classified (children h)) @
         linkIcons (classified (children h)) @
         linkResourceHints (classified (children h)) @
         linkStylesheetBeforeAmpCustom (classified (children h)) @
         slotList (styleAmpCustom (classified (children h))) @
         filter (\<lambda>c. Some c \<noteq> noscript (classified (children h)))
           (other (classified (children h))) @
         slotList (styleAmpBoilerplate (classified (children h))) @
         slotList (noscript (classified (children h)))\<rparr>)"
    using reorderHead_fresh[OF assms] reordered_classified[of "children h"] by simp
qed (simp_all add: classified_def keepsInputOrder_matching keepsInputOrder_filter
      keepsInputOrder_beforeAmpCustom assms)

text \<open>Scenario 1 of the specification, with a title and a base element added.\<close>

theorem reorderHead_fixed_order_witness:
  "distinct (children \<lparr>head_ref = 0, children = [exStory, exTitle, exCharsetA, exBase]\<rparr>) \<and>
   (\<exists>this'. reorderHead constructor
        (Some \<lparr>head_ref = 0, children = [exStory, exTitle, exCharsetA, exBase]\<rparr>) =
        Inr (this', \<lparr>head_ref = 0, children = [exCharsetA, exStory, exTitle, exBase]\<rparr>) \<and>
      keepsInputOrder (other this') [exStory, exTitle, exCharsetA, exBase])"
proof -
  let ?h = "\<lparr>head_ref = 0, children = [exStory, exTitle, exCharsetA, exBase]\<rparr>"
  have d: "distinct (children ?h)" by (simp add: ex_defs)
  have e: "reorderHead constructor (Some ?h) =
      Inr (constructor\<lparr>scriptRenderDelayingExtensions := [exStory],
             other := [exTitle, exBase], metaCharset := Some exCharsetA\<rparr>,
           \<lparr>head_ref = 0, children = [exCharsetA, exStory, exTitle, exBase]\<rparr>)"
    by (simp add: run_defs ex_defs)
  from reorderHead_fixed_order[OF d] obtain this' where
    a: "\<exists>h'. reorderHead constructor (Some ?h) = Inr (this', h')" and
    b: "keepsInputOrder (other this') (children ?h)"
    by blast
  from a e have "reorderHead constructor (Some ?h) =
      Inr (this', \<lparr>head_ref = 0, children = [exCharsetA, exStory, exTitle, exBase]\<rparr>)"
    by auto
  with b d show ?thesis by auto
qed

text \<open>
  C1 as stated fails for two nodes of the \<open>other\<close> list when the first is the
  \<^verbatim>\<open>NOSCRIPT\<close> child: both are classified into \<open>other\<close>, in the order of the input,
  and the output has them in the opposite order.
\<close>

theorem reorderHead_noscript_order_counterexample:
  "reorderHead constructor (Some \<lparr>head_ref = 0, children = [exNoscript, exTitle]\<rparr>) =
     Inr (constructor\<lparr>other := [exNoscript, exTitle], noscript := Some exNoscript\<rparr>,
          \<lparr>head_ref = 0, children = [exTitle, exNoscript]\<rparr>)"
  by (simp add: run_defs ex_defs)

subsection \<open>C2: reordering a reordered head\<close>

text \<open>
  C2, as amended. When each of the two runs is made by a newly constructed transformer,
  on a head whose children are distinct nodes, the second run returns the head of the
  first run unchanged: the same child sequence.
\<close>

theorem reorderHead_idempotent_fresh:
  assumes "distinct (children h)"
  shows "\<exists>s1 h1 s2. reorderHead constructor (Some h) = Inr (s1, h1) \<and>
           reorderHead constructor (Some h1) = Inr (s2, h1)"
proof -
  let ?h1 = "h\<lparr>children := reordered (children h)\<rparr>"
  have d: "distinct (children ?h1)"
    using assms by (simp add: distinct_reordered)
  have "reorderHead constructor (Some ?h1) =
          Inr (classified (children ?h1), ?h1\<lparr>children := reordered (children ?h1)\<rparr>)"
    using d by (rule reorderHead_fresh)
  then have "reorderHead constructor (Some ?h1) = Inr (classified (reordered (children h)), ?h1)"
    by (simp add: reordered_idem)
  with reorderHead_fresh[OF assms] show ?thesis by blast
qed

theorem reorderHead_idempotent_fresh_witness:
  "distinct (children \<lparr>head_ref = 0, children = [exNoscript, exScript, exTitle, exCharsetA]\<rparr>) \<and>
   (\<exists>s1 h1 s2.
      reorderHead constructor
        (Some \<lparr>head_ref = 0, children = [exNoscript, exScript, exTitle, exCharsetA]\<rparr>) =
        Inr (s1, h1) \<and>
      reorderHead constructor (Some h1) = Inr (s2, h1) \<and>
      children h1 = [exCharsetA, exScript, exTitle, exNoscript])"
proof -
  let ?h = "\<lparr>head_ref = 0, children = [exNoscript, exScript, exTitle, exCharsetA]\<rparr>"
  have d: "distinct (children ?h)" by (simp add: ex_defs)
  have e: "reorderHead constructor (Some ?h) =
      Inr (constructor\<lparr>other := [exNoscript, exScript, exTitle],
             metaCharset := Some exCharsetA, noscript := Some exNoscript\<rparr>,
           \<lparr>head_ref = 0, children = [exCharsetA, exScript, exTitle, exNoscript]\<rparr>)"
    by (simp add: run_defs ex_defs)
  from reorderHead_idempotent_fresh[OF d] obtain s1 h1 s2 where
    a: "reorderHead constructor (Some ?h) = Inr (s1, h1)" and
    b: "reorderHead constructor (Some h1) = Inr (s2, h1)"
    by blast
  from a e have "children h1 = [exCharsetA, exScript, exTitle, exNoscript]" by auto
  with a b d show ?thesis by blast
qed

text \<open>
  C2 as stated fails when the second run is made by the transformer of the first: the
  registry still holds the nodes of the first run, \<^verbatim>\<open>registerScript\<close> pushes the
  script into \<open>other\<close> a second time, and the script ends up behind the base element.
\<close>

theorem reorderHead_same_instance_counterexample:
  "reorderHead constructor (Some \<lparr>head_ref = 0, children = [exTitle, exScript, exBase]\<rparr>) =
     Inr (constructor\<lparr>other := [exTitle, exScript, exBase]\<rparr>,
          \<lparr>head_ref = 0, children = [exTitle, exScript, exBase]\<rparr>) \<and>
   reorderHead (constructor\<lparr>other := [exTitle, exScript, exBase]\<rparr>)
       (Some \<lparr>head_ref = 0, children = [exTitle, exScript, exBase]\<rparr>) =
     Inr (constructor\<lparr>other := [exTitle, exScript, exBase, exScript]\<rparr>,
          \<lparr>head_ref = 0, children = [exTitle, exBase, exScript]\<rparr>)"
  by (simp add: run_defs ex_defs)

subsection \<open>C3: the null head\<close>

text \<open>
  C3. With a \<^verbatim>\<open>null\<close> head the call does not return the \<^verbatim>\<open>null\<close> value: it
  raises a \<^verbatim>\<open>TypeError\<close> at \<^verbatim>\<open>head.innerHTML = ''\<close>, whatever the registry holds.
\<close>

theorem reorderHead_null_head: "reorderHead this None = Inl TypeError"
  by (simp add: reorderHead_def)

subsection \<open>C4: several charset metas\<close>




subsection \<open>C5: stylesheet links and the custom style\<close>

text \<open>
  C5, as amended. A \<^verbatim>\<open>LINK\<close> child \<open>l\<close> with \<^verbatim>\<open>rel\<close> exactly
  \<^verbatim>\<open>stylesheet\<close> whose \<^verbatim>\<open>href\<close> is not a runtime-css URL, in every registry: if
  the \<open>styleAmpCustom\<close> slot is empty when the link is processed, the link is appended to
  \<open>linkStylesheetBeforeAmpCustom\<close>, and otherwise the registry is left as it is. For
  the link at any position \<open>pre @ l # post\<close> among the distinct children of a head, and
  every registry the call starts from: if the slot is empty after the children before the
  link, the link is in the list and in the output; if the slot is filled, the link is
  absent from the output, from \<open>other\<close> and from the list, provided that the registry
  did not hold it when the call started (a newly constructed transformer holds nothing).
\<close>

theorem stylesheet_link_before_amp_custom:
  assumes "distinct (children h)" and "children h = pre @ l # post"
    and "tagName l = ''LINK''" and "getAttribute l ''rel'' = Some ''stylesheet''"
    and "\<not> (startsWith (getAttribute l ''href'') ''https://cdn.ampproject.org/'' \<and>
            endsWith (getAttribute l ''href'') ''/v0.css'')"
  shows "switchTagName this l =
           (if styleAmpCustom this = None
            then this\<lparr>linkStylesheetBeforeAmpCustom :=
                         linkStylesheetBeforeAmpCustom this @ [l]\<rparr>
            else this) \<and>
         (\<exists>this' h'. reorderHead this (Some h) = Inr (this', h') \<and>
           (if styleAmpCustom (foldl switchTagName this pre) = None
            then l \<in> set (linkStylesheetBeforeAmpCustom this') \<and> l \<in> set (children h')
            else l \<notin> registryNodes this \<longrightarrow>
                 l \<notin> set (children h') \<and> l \<notin> set (other this') \<and>
                 l \<notin> set (linkStylesheetBeforeAmpCustom this')))"
proof
  have r: "ruleOf l = LinkStylesheet"
    using assms(3,4,5) by (rule ruleOf_LinkStylesheet)
  show "switchTagName this l =
           (if styleAmpCustom this = None
            then this\<lparr>linkStylesheetBeforeAmpCustom :=
                         linkStylesheetBeforeAmpCustom this @ [l]\<rparr>
            else this)"
    using r by (rule linkStylesheet_step)
  let ?s = "foldl switchTagName this pre"
  let ?t = "foldl switchTagName this (children h)"
  let ?h' = "repopulate ?t (clearInnerHTML h)"
  have run: "reorderHead this (Some h) = Inr (?t, ?h')"
    by (simp add: reorderHead_def Let_def)
  have t: "?t = foldl switchTagName (switchTagName ?s l) post"
    by (simp add: assms(2))
  have out: "set (children ?h') = registryNodes ?t"
    by (rule set_children_repopulate)
  have "if styleAmpCustom ?s = None
        then l \<in> set (linkStylesheetBeforeAmpCustom ?t) \<and> l \<in> set (children ?h')
        else l \<notin> registryNodes this \<longrightarrow>
             l \<notin> set (children ?h') \<and> l \<notin> set (other ?t) \<and>
             l \<notin> set (linkStylesheetBeforeAmpCustom ?t)"
  proof (cases "styleAmpCustom ?s = None")
    case True
    then have "l \<in> set (linkStylesheetBeforeAmpCustom (switchTagName ?s l))"
      using linkStylesheet_step[OF r, of ?s] by simp
    then have a: "l \<in> set (linkStylesheetBeforeAmpCustom ?t)"
      unfolding t by (rule in_linkStylesheet_foldl)
    then have "l \<in> listBucketNodes ?t" by (simp add: listBucketNodes_def)
    then have "l \<in> registryNodes ?t" using listBucketNodes_registryNodes by blast
    with a True out show ?thesis by simp
  next
    case False
    then have same: "switchTagName ?s l = ?s"
      using linkStylesheet_step[OF r, of ?s] by simp
    have notin: "l \<notin> set pre" "l \<notin> set post"
      using assms(1,2) by auto
    have "l \<notin> registryNodes ?t" if held: "l \<notin> registryNodes this"
    proof -
      have "registryNodes ?s \<subseteq> set pre \<union> registryNodes this"
        by (rule registryNodes_foldl)
      then have a: "l \<notin> registryNodes ?s" using notin(1) held by auto
      have "registryNodes ?t \<subseteq> set post \<union> registryNodes ?s"
        unfolding t same by (rule registryNodes_foldl)
      then show ?thesis using notin(2) a by auto
    qed
    moreover have "set (other ?t) \<subseteq> registryNodes ?t"
      "set (linkStylesheetBeforeAmpCustom ?t) \<subseteq> registryNodes ?t"
      using listBucketNodes_registryNodes[of ?t] by (auto simp: listBucketNodes_def)
    ultimately show ?thesis using False out by auto
  qed
  with run show "\<exists>this' h'. reorderHead this (Some h) = Inr (this', h') \<and>
           (if styleAmpCustom (foldl switchTagName this pre) = None
            then l \<in> set (linkStylesheetBeforeAmpCustom this') \<and> l \<in> set (children h')
            else l \<notin> registryNodes this \<longrightarrow>
                 l \<notin> set (children h') \<and> l \<notin> set (other this') \<and>
                 l \<notin> set (linkStylesheetBeforeAmpCustom this'))"
    by blast
qed

text \<open>Scenario 3 of the specification, in both orders, on a newly constructed transformer.\<close>

theorem stylesheet_link_before_amp_custom_witness:
  "(distinct [exStylesheet, exCustom] \<and> distinct [exCustom, exStylesheet] \<and>
    tagName exStylesheet = ''LINK'' \<and> getAttribute exStylesheet ''rel'' = Some ''stylesheet'' \<and>
    \<not> (startsWith (getAttribute exStylesheet ''href'') ''https://cdn.ampproject.org/'' \<and>
        endsWith (getAttribute exStylesheet ''href'') ''/v0.css'') \<and>
    exStylesheet \<notin> registryNodes constructor) \<and>
   switchTagName constructor exStylesheet =
     constructor\<lparr>linkStylesheetBeforeAmpCustom := [exStylesheet]\<rparr> \<and>
   (\<exists>this' h'. reorderHead constructor
        (Some \<lparr>head_ref = 0, children = [exStylesheet, exCustom]\<rparr>) = Inr (this', h') \<and>
      exStylesheet \<in> set (linkStylesheetBeforeAmpCustom this') \<and>
      exStylesheet \<in> set (children h')) \<and>
   (\<exists>this' h'. reorderHead constructor
        (Some \<lparr>head_ref = 0, children = [exCustom, exStylesheet]\<rparr>) = Inr (this', h') \<and>
      exStylesheet \<notin> set (children h') \<and> exStylesheet \<notin> set (other this') \<and>
      exStylesheet \<notin> set (linkStylesheetBeforeAmpCustom this'))"
proof -
  let ?h1 = "\<lparr>head_ref = 0, children = [exStylesheet, exCustom]\<rparr>"
  let ?h2 = "\<lparr>head_ref = 0, children = [exCustom, exStylesheet]\<rparr>"
  have d1: "distinct (children ?h1)" and d2: "distinct (children ?h2)"
    by (simp_all add: ex_defs)
  have c1: "children ?h1 = [] @ exStylesheet # [exCustom]"
    and c2: "children ?h2 = [exCustom] @ exStylesheet # []"
    by simp_all
  have t: "tagName exStylesheet = ''LINK''"
    and r: "getAttribute exStylesheet ''rel'' = Some ''stylesheet''"
    and n: "\<not> (startsWith (getAttribute exStylesheet ''href'') ''https://cdn.ampproject.org/'' \<and>
               endsWith (getAttribute exStylesheet ''href'') ''/v0.css'')"
    by (simp_all add: ex_defs getAttribute_def)
  have held: "exStylesheet \<notin> registryNodes constructor"
    by (simp add: registryNodes_def emitted_def constructor_def slotList_def)
  have s0: "styleAmpCustom constructor = None"
    and l0: "linkStylesheetBeforeAmpCustom constructor = []"
    by (simp_all add: constructor_def)
  have s1: "styleAmpCustom (foldl switchTagName constructor []) = None"
    by (simp add: constructor_def)
  have s2: "styleAmpCustom (foldl switchTagName constructor [exCustom]) = Some exCustom"
    by (simp add: run_defs ex_defs)
  from stylesheet_link_before_amp_custom[OF d1 c1 t r n, of constructor] s0 l0 s1
  have a: "switchTagName constructor exStylesheet =
             constructor\<lparr>linkStylesheetBeforeAmpCustom := [exStylesheet]\<rparr>"
    and b: "\<exists>this' h'. reorderHead constructor (Some ?h1) = Inr (this', h') \<and>
      exStylesheet \<in> set (linkStylesheetBeforeAmpCustom this') \<and>
      exStylesheet \<in> set (children h')"
    by simp_all
  from stylesheet_link_before_amp_custom[OF d2 c2 t r n, of constructor] s2 held
  have c: "\<exists>this' h'. reorderHead constructor (Some ?h2) = Inr (this', h') \<and>
      exStylesheet \<notin> set (children h') \<and> exStylesheet \<notin> set (other this') \<and>
      exStylesheet \<notin> set (linkStylesheetBeforeAmpCustom this')"
    by simp
  from d1 d2 t r n held a b c show ?thesis by simp
qed

text \<open>
  C5 as stated fails on a transformer that is used again: the second call on the head of
  scenario 3 processes the link with the \<open>styleAmpCustom\<close> slot filled by the first
  call and leaves the registry as it is, yet the link is in the output, because the list
  holds it since the first call.
\<close>

theorem stylesheet_link_reused_registry_counterexample:
  "reorderHead constructor (Some \<lparr>head_ref = 0, children = [exStylesheet, exCustom]\<rparr>) =
     Inr (constructor\<lparr>linkStylesheetBeforeAmpCustom := [exStylesheet],
            styleAmpCustom := Some exCustom\<rparr>,
          \<lparr>head_ref = 0, children = [exStylesheet, exCustom]\<rparr>) \<and>
   styleAmpCustom (constructor\<lparr>linkStylesheetBeforeAmpCustom := [exStylesheet],
            styleAmpCustom := Some exCustom\<rparr>) = Some exCustom \<and>
   switchTagName (constructor\<lparr>linkStylesheetBeforeAmpCustom := [exStylesheet],
            styleAmpCustom := Some exCustom\<rparr>) exStylesheet =
     constructor\<lparr>linkStylesheetBeforeAmpCustom := [exStylesheet],
            styleAmpCustom := Some exCustom\<rparr> \<and>
   reorderHead (constructor\<lparr>linkStylesheetBeforeAmpCustom := [exStylesheet],
            styleAmpCustom := Some exCustom\<rparr>)
       (Some \<lparr>head_ref = 0, children = [exStylesheet, exCustom]\<rparr>) =
     Inr (constructor\<lparr>linkStylesheetBeforeAmpCustom := [exStylesheet],
            styleAmpCustom := Some exCustom\<rparr>,
          \<lparr>head_ref = 0, children = [exStylesheet, exCustom]\<rparr>)"
  by (simp add: run_defs ex_defs)

subsection \<open>C6: extension scripts\<close>

text \<open>
  C6. For a \<^verbatim>\<open>SCRIPT\<close> child with any of the attributes \<^verbatim>\<open>custom-element\<close>,
  \<^verbatim>\<open>custom-template\<close> and \<^verbatim>\<open>host-service\<close>, in any registry, the switch does
  nothing but append the child to one of the two extension lists, whatever \<^verbatim>\<open>async\<close>
  and \<^verbatim>\<open>src\<close> are: to \<open>scriptRenderDelayingExtensions\<close> exactly when the value of
  \<^verbatim>\<open>custom-element\<close> is \<^verbatim>\<open>amp-story\<close>, \<^verbatim>\<open>amp-experiment\<close> or
  \<^verbatim>\<open>amp-dynamic-css-classes\<close>, to \<open>scriptNonRenderDelayingExtensions\<close> otherwise.
\<close>

theorem extension_script_priority:
  assumes "tagName el = ''SCRIPT''"
    and "hasAttribute el ''custom-element'' \<or> hasAttribute el ''custom-template'' \<or>
         hasAttribute el ''host-service''"
  shows "switchTagName this el =
     (if getAttribute el ''custom-element'' = Some ''amp-story'' \<or>
         getAttribute el ''custom-element'' = Some ''amp-experiment'' \<or>
         getAttribute el ''custom-element'' = Some ''amp-dynamic-css-classes''
      then this\<lparr>scriptRenderDelayingExtensions :=
                   scriptRenderDelayingExtensions this @ [el]\<rparr>
      else this\<lparr>scriptNonRenderDelayingExtensions :=
                   scriptNonRenderDelayingExtensions this @ [el]\<rparr>)"
proof -
  have "switchTagName this el = registerScript this el"
    using assms(1) by (simp add: switchTagName_def)
  then show ?thesis
    using assms(2) by (simp only: registerScript_def Let_def if_True)
qed

text \<open>
  The script of scenario 1: asynchronous, with the URL of the AMP engine, and an
  extension.
\<close>

theorem extension_script_priority_witness:
  "tagName exStory = ''SCRIPT'' \<and> hasAttribute exStory ''custom-element'' \<and>
   hasAttribute exStory ''async'' \<and>
   startsWith (getAttribute exStory ''src'') ''https://cdn.ampproject.org/'' \<and>
   endsWith (getAttribute exStory ''src'') ''/v0.js'' \<and>
   switchTagName constructor exStory =
     constructor\<lparr>scriptRenderDelayingExtensions := [exStory]\<rparr>"
proof -
  have t: "tagName exStory = ''SCRIPT''" by (simp add: ex_defs)
  have c: "hasAttribute exStory ''custom-element''" by (simp add: ex_defs hasAttribute_def)
  then have e: "hasAttribute exStory ''custom-element'' \<or>
      hasAttribute exStory ''custom-template'' \<or> hasAttribute exStory ''host-service''"
    by simp
  have v: "getAttribute exStory ''custom-element'' = Some ''amp-story''"
    by (simp add: ex_defs getAttribute_def)
  have u: "hasAttribute exStory ''async'' \<and>
      startsWith (getAttribute exStory ''src'') ''https://cdn.ampproject.org/'' \<and>
      endsWith (getAttribute exStory ''src'') ''/v0.js''"
    by (simp add: ex_defs hasAttribute_def getAttribute_def)
  have "switchTagName constructor exStory =
          constructor\<lparr>scriptRenderDelayingExtensions := [exStory]\<rparr>"
    using extension_script_priority[OF t e, of constructor] v
    by (simp add: constructor_def)
  with t c u show ?thesis by simp
qed

subsection \<open>C7: the noscript child\<close>

text \<open>
  C7, as amended. For every \<^verbatim>\<open>NOSCRIPT\<close> child and every registry, the switch
  assigns the child to the \<open>noscript\<close> slot, whatever the slot held, and appends it to
  \<open>other\<close> unless it is there already. For every registry and every head with a
  \<^verbatim>\<open>NOSCRIPT\<close> child, after the call the slot holds the last such child, every such
  child is in \<open>other\<close>, and the child in the slot, which \<^verbatim>\<open>repopulate\<close> appends
  at step 14 and again at step 16, is in the output once, as its last child:
  \<^verbatim>\<open>appendChild\<close> moves a node that is already a child.
\<close>

theorem noscript_slot_and_other:
  "(tagName c = ''NOSCRIPT'' \<longrightarrow>
      switchTagName this c =
        (if c \<in> set (other this) then this\<lparr>noscript := Some c\<rparr>
         else this\<lparr>noscript := Some c, other := other this @ [c]\<rparr>)) \<and>
   (filter (\<lambda>d. tagName d = ''NOSCRIPT'') (children h) \<noteq> [] \<longrightarrow>
      (\<exists>this' h' ys.
         reorderHead this (Some h) = Inr (this', h') \<and>
         noscript this' = Some (last (filter (\<lambda>d. tagName d = ''NOSCRIPT'') (children h))) \<and>
         (\<forall>d\<in>set (children h). tagName d = ''NOSCRIPT'' \<longrightarrow> d \<in> set (other this')) \<and>
         children h' = ys @ [last (filter (\<lambda>d. tagName d = ''NOSCRIPT'') (children h))] \<and>
         last (filter (\<lambda>d. tagName d = ''NOSCRIPT'') (children h)) \<notin> set ys))"
proof (intro conjI impI)
  assume "tagName c = ''NOSCRIPT''"
  then show "switchTagName this c =
        (if c \<in> set (other this) then this\<lparr>noscript := Some c\<rparr>
         else this\<lparr>noscript := Some c, other := other this @ [c]\<rparr>)"
    by (rule noscript_step)
next
  let ?n = "last (filter (\<lambda>d. tagName d = ''NOSCRIPT'') (children h))"
  let ?t = "foldl switchTagName this (children h)"
  assume ne: "filter (\<lambda>d. tagName d = ''NOSCRIPT'') (children h) \<noteq> []"
  have run: "reorderHead this (Some h) = Inr (?t, repopulate ?t (clearInnerHTML h))"
    by (simp add: reorderHead_def Let_def)
  have slot: "noscript ?t = Some ?n"
    using ne by (simp add: noscript_foldl matching_Noscript)
  have oth: "\<forall>d\<in>set (children h). tagName d = ''NOSCRIPT'' \<longrightarrow> d \<in> set (other ?t)"
    by (simp add: noscript_in_other_foldl)
  from repopulate_noscript_last[OF slot, of "clearInnerHTML h"] obtain ys where
    "children (repopulate ?t (clearInnerHTML h)) = ys @ [?n]" "?n \<notin> set ys"
    by blast
  with run slot oth show "\<exists>this' h' ys.
         reorderHead this (Some h) = Inr (this', h') \<and>
         noscript this' = Some ?n \<and>
         (\<forall>d\<in>set (children h). tagName d = ''NOSCRIPT'' \<longrightarrow> d \<in> set (other this')) \<and>
         children h' = ys @ [?n] \<and> ?n \<notin> set ys"
    by blast
qed

text \<open>
  Two \<^verbatim>\<open>NOSCRIPT\<close> children: a step that overwrites the slot and appends, a step on
  a child that \<open>other\<close> holds already, and a whole call.
\<close>

theorem noscript_slot_and_other_witness:
  "tagName exNoscriptB = ''NOSCRIPT'' \<and>
   switchTagName (constructor\<lparr>other := [exNoscript, exTitle], noscript := Some exNoscript\<rparr>)
       exNoscriptB =
     constructor\<lparr>other := [exNoscript, exTitle, exNoscriptB], noscript := Some exNoscriptB\<rparr> \<and>
   switchTagName (constructor\<lparr>other := [exNoscriptB], noscript := Some exNoscript\<rparr>)
       exNoscriptB =
     constructor\<lparr>other := [exNoscriptB], noscript := Some exNoscriptB\<rparr> \<and>
   filter (\<lambda>d. tagName d = ''NOSCRIPT'') [exNoscript, exTitle, exNoscriptB, exBoilerplate] =
     [exNoscript, exNoscriptB] \<and>
   (\<exists>this' h' ys.
      reorderHead constructor
        (Some \<lparr>head_ref = 0, children = [exNoscript, exTitle, exNoscriptB, exBoilerplate]\<rparr>) =
        Inr (this', h') \<and>
      noscript this' = Some exNoscriptB \<and>
      exNoscript \<in> set (other this') \<and> exNoscriptB \<in> set (other this') \<and>
      children h' = ys @ [exNoscriptB] \<and> exNoscriptB \<notin> set ys)"
proof -
  let ?h = "\<lparr>head_ref = 0, children = [exNoscript, exTitle, exNoscriptB, exBoilerplate]\<rparr>"
  have t: "tagName exNoscriptB = ''NOSCRIPT''" by (simp add: ex_defs2)
  have m1: "exNoscriptB \<notin> set (other (constructor\<lparr>other := [exNoscript, exTitle],
              noscript := Some exNoscript\<rparr>))"
    by (simp add: ex_defs ex_defs2)
  have m2: "exNoscriptB \<in> set (other (constructor\<lparr>other := [exNoscriptB],
              noscript := Some exNoscript\<rparr>))"
    by simp
  from noscript_slot_and_other[of exNoscriptB
      "constructor\<lparr>other := [exNoscript, exTitle], noscript := Some exNoscript\<rparr>"] t m1
  have a: "switchTagName (constructor\<lparr>other := [exNoscript, exTitle],
              noscript := Some exNoscript\<rparr>) exNoscriptB =
     constructor\<lparr>other := [exNoscript, exTitle, exNoscriptB], noscript := Some exNoscriptB\<rparr>"
    by (simp add: constructor_def)
  from noscript_slot_and_other[of exNoscriptB
      "constructor\<lparr>other := [exNoscriptB], noscript := Some exNoscript\<rparr>"] t m2
  have b: "switchTagName (constructor\<lparr>other := [exNoscriptB], noscript := Some exNoscript\<rparr>)
       exNoscriptB =
     constructor\<lparr>other := [exNoscriptB], noscript := Some exNoscriptB\<rparr>"
    by (simp add: constructor_def)
  have f: "filter (\<lambda>d. tagName d = ''NOSCRIPT'') (children ?h) = [exNoscript, exNoscriptB]"
    by (simp add: ex_defs ex_defs2)
  then have ne: "filter (\<lambda>d. tagName d = ''NOSCRIPT'') (children ?h) \<noteq> []" by simp
  from noscript_slot_and_other[of _ constructor ?h] ne f
  have c: "\<exists>this' h' ys.
      reorderHead constructor (Some ?h) = Inr (this', h') \<and>
      noscript this' = Some exNoscriptB \<and>
      (\<forall>d\<in>set (children ?h). tagName d = ''NOSCRIPT'' \<longrightarrow> d \<in> set (other this')) \<and>
      children h' = ys @ [exNoscriptB] \<and> exNoscriptB \<notin> set ys"
    by simp
  have tn: "tagName exNoscript = ''NOSCRIPT''" by (simp add: ex_defs)
  from c tn t have c': "\<exists>this' h' ys.
      reorderHead constructor (Some ?h) = Inr (this', h') \<and>
      noscript this' = Some exNoscriptB \<and>
      exNoscript \<in> set (other this') \<and> exNoscriptB \<in> set (other this') \<and>
      children h' = ys @ [exNoscriptB] \<and> exNoscriptB \<notin> set ys"
    by auto
  from t a b f c' show ?thesis by simp
qed

text \<open>
  C7 as stated fails: with a boilerplate style after it, the \<^verbatim>\<open>NOSCRIPT\<close> child is
  not in the output at the position of \<open>other\<close>, before the boilerplate, but only
  behind it.
\<close>

theorem noscript_not_in_other_position_counterexample:
  "reorderHead constructor (Some \<lparr>head_ref = 0, children = [exNoscript, exBoilerplate]\<rparr>) =
     Inr (constructor\<lparr>other := [exNoscript], styleAmpBoilerplate := Some exBoilerplate,
            noscript := Some exNoscript\<rparr>,
          \<lparr>head_ref = 0, children = [exBoilerplate, exNoscript]\<rparr>)"
  by (simp add: run_defs ex_defs)

subsection \<open>C8: the registry between calls\<close>

text \<open>
  C8, as amended. The registry is built once, by the constructor, and a call starts from
  the registry that the call before it left: for every registry and every head, the call
  returns the registry obtained by running the switch over the children from the registry
  it found, and every node that a list bucket held when the call started is a child of
  the output.
\<close>

theorem registry_persists_across_calls:
  "\<exists>this' h'. reorderHead this (Some h) = Inr (this', h') \<and>
     this' = foldl switchTagName this (children h) \<and>
     listBucketNodes this \<subseteq> set (children h')"
proof -
  let ?s = "foldl switchTagName this (children h)"
  have "listBucketNodes this \<subseteq> listBucketNodes ?s" by (rule listBucketNodes_foldl)
  also have "\<dots> \<subseteq> set (emitted ?s)" by (rule listBucketNodes_emitted)
  finally have "listBucketNodes this \<subseteq> set (children (repopulate ?s (clearInnerHTML h)))"
    by (auto simp: repopulate_emitted appendAll_children set_foldl_moveToEnd)
  then show ?thesis
    by (simp add: reorderHead_def Let_def)
qed

text \<open>
  C8 as stated fails: after a call on a head with a title, a second call of the same
  transformer on an empty head returns a head with the title, where a newly constructed
  transformer returns the empty head.
\<close>

theorem registry_persists_counterexample:
  "reorderHead constructor (Some \<lparr>head_ref = 0, children = [exTitle]\<rparr>) =
     Inr (constructor\<lparr>other := [exTitle]\<rparr>, \<lparr>head_ref = 0, children = [exTitle]\<rparr>) \<and>
   reorderHead (constructor\<lparr>other := [exTitle]\<rparr>) (Some \<lparr>head_ref = 1, children = []\<rparr>) =
     Inr (constructor\<lparr>other := [exTitle]\<rparr>, \<lparr>head_ref = 1, children = [exTitle]\<rparr>) \<and>
   reorderHead constructor (Some \<lparr>head_ref = 1, children = []\<rparr>) =
     Inr (constructor, \<lparr>head_ref = 1, children = []\<rparr>)"
  by (simp add: run_defs ex_defs)

subsection \<open>C9: duplicates in the list buckets\<close>




subsection \<open>C10: absent attributes\<close>

text \<open>
  C10, as amended. In every registry: a \<^verbatim>\<open>SCRIPT\<close> child that is no extension and
  has no \<^verbatim>\<open>src\<close> (with or without \<^verbatim>\<open>async\<close>), a \<^verbatim>\<open>STYLE\<close> child with none
  of its four attributes and a \<^verbatim>\<open>LINK\<close> child without \<^verbatim>\<open>rel\<close> are appended to
  \<open>other\<close> and nothing else changes; a \<^verbatim>\<open>LINK\<close> child with \<^verbatim>\<open>rel\<close>
  \<^verbatim>\<open>stylesheet\<close> and no \<^verbatim>\<open>href\<close> is not a runtime-css link, so it is appended
  to \<open>linkStylesheetBeforeAmpCustom\<close> when the \<open>styleAmpCustom\<close> slot is empty and
  dropped otherwise; a \<^verbatim>\<open>META\<close> child without \<^verbatim>\<open>charset\<close> goes to
  \<open>metaOther\<close>. A call on a head whose children are all of the first kind raises no
  fault: it returns the registry with these children appended to \<open>other\<close>, and a head
  that holds them all. The prefix and suffix tests on the absent \<^verbatim>\<open>src\<close> and
  \<^verbatim>\<open>href\<close> are those of the string helpers as the specification describes them.
\<close>

theorem absent_attributes_classified:
  "(fallsToOther el \<longrightarrow> switchTagName this el = this\<lparr>other := other this @ [el]\<rparr>) \<and>
   (tagName el = ''LINK'' \<and> getAttribute el ''rel'' = Some ''stylesheet'' \<and>
    getAttribute el ''href'' = None
      \<longrightarrow> switchTagName this el =
            (if styleAmpCustom this = None
             then this\<lparr>linkStylesheetBeforeAmpCustom :=
                          linkStylesheetBeforeAmpCustom this @ [el]\<rparr>
             else this)) \<and>
   (tagName el = ''META'' \<and> \<not> hasAttribute el ''charset''
      \<longrightarrow> switchTagName this el =
            (if el \<notin> set (metaOther this) then this\<lparr>metaOther := metaOther this @ [el]\<rparr>
             else this)) \<and>
   ((\<forall>c\<in>set (children h). fallsToOther c)
      \<longrightarrow> (\<exists>h'. reorderHead this (Some h) =
                   Inr (this\<lparr>other := other this @ children h\<rparr>, h') \<and>
                 set (children h) \<subseteq> set (children h')))"
proof (intro conjI impI)
  assume "fallsToOther el"
  then show "switchTagName this el = this\<lparr>other := other this @ [el]\<rparr>"
    by (rule fallsToOther_step)
next
  assume a: "tagName el = ''LINK'' \<and> getAttribute el ''rel'' = Some ''stylesheet'' \<and>
    getAttribute el ''href'' = None"
  then have "ruleOf el = LinkStylesheet"
    by (intro ruleOf_LinkStylesheet) simp_all
  then show "switchTagName this el =
            (if styleAmpCustom this = None
             then this\<lparr>linkStylesheetBeforeAmpCustom :=
                          linkStylesheetBeforeAmpCustom this @ [el]\<rparr>
             else this)"
    by (rule linkStylesheet_step)
next
  assume "tagName el = ''META'' \<and> \<not> hasAttribute el ''charset''"
  then show "switchTagName this el =
            (if el \<notin> set (metaOther this) then this\<lparr>metaOther := metaOther this @ [el]\<rparr>
             else this)"
    by (simp add: switchTagName_def registerMeta_def)
next
  let ?t = "this\<lparr>other := other this @ children h\<rparr>"
  assume all: "\<forall>c\<in>set (children h). fallsToOther c"
  then have f: "foldl switchTagName this (children h) = ?t"
    by (rule fallsToOther_foldl)
  then have run: "reorderHead this (Some h) = Inr (?t, repopulate ?t (clearInnerHTML h))"
    by (simp add: reorderHead_def Let_def)
  have "set (children h) \<subseteq> listBucketNodes ?t"
    by (auto simp: listBucketNodes_def)
  also have "\<dots> \<subseteq> registryNodes ?t" by (rule listBucketNodes_registryNodes)
  finally have "set (children h) \<subseteq> set (children (repopulate ?t (clearInnerHTML h)))"
    by (simp add: set_children_repopulate)
  with run show "\<exists>h'. reorderHead this (Some h) = Inr (?t, h') \<and>
                 set (children h) \<subseteq> set (children h')"
    by blast
qed

theorem absent_attributes_classified_witness:
  "(fallsToOther exAsyncNoSrc \<and> hasAttribute exAsyncNoSrc ''async'' \<and>
    getAttribute exAsyncNoSrc ''src'' = None \<and> fallsToOther exLinkNoRel) \<and>
   switchTagName constructor exAsyncNoSrc = constructor\<lparr>other := [exAsyncNoSrc]\<rparr> \<and>
   switchTagName constructor exLinkNoRel = constructor\<lparr>other := [exLinkNoRel]\<rparr> \<and>
   (tagName exStylesheetNoHref = ''LINK'' \<and>
    getAttribute exStylesheetNoHref ''rel'' = Some ''stylesheet'' \<and>
    getAttribute exStylesheetNoHref ''href'' = None) \<and>
   switchTagName constructor exStylesheetNoHref =
     constructor\<lparr>linkStylesheetBeforeAmpCustom := [exStylesheetNoHref]\<rparr> \<and>
   (tagName exViewport = ''META'' \<and> \<not> hasAttribute exViewport ''charset'') \<and>
   switchTagName constructor exViewport = constructor\<lparr>metaOther := [exViewport]\<rparr> \<and>
   (\<exists>h'. reorderHead constructor
       (Some \<lparr>head_ref = 0, children = [exAsyncNoSrc, exLinkNoRel]\<rparr>) =
       Inr (constructor\<lparr>other := [exAsyncNoSrc, exLinkNoRel]\<rparr>, h') \<and>
     exAsyncNoSrc \<in> set (children h') \<and> exLinkNoRel \<in> set (children h'))"
proof -
  let ?h = "\<lparr>head_ref = 0, children = [exAsyncNoSrc, exLinkNoRel]\<rparr>"
  have a: "fallsToOther exAsyncNoSrc" and a': "hasAttribute exAsyncNoSrc ''async''"
    and a'': "getAttribute exAsyncNoSrc ''src'' = None"
    by (simp_all add: fallsToOther_def ex_defs hasAttribute_def getAttribute_def)
  have b: "fallsToOther exLinkNoRel"
    by (simp add: fallsToOther_def ex_defs getAttribute_def)
  have l: "tagName exStylesheetNoHref = ''LINK'' \<and>
    getAttribute exStylesheetNoHref ''rel'' = Some ''stylesheet'' \<and>
    getAttribute exStylesheetNoHref ''href'' = None"
    by (simp add: ex_defs2 getAttribute_def)
  have m: "tagName exViewport = ''META'' \<and> \<not> hasAttribute exViewport ''charset''"
    by (simp add: ex_defs2 hasAttribute_def)
  have c0: "other constructor = []" "metaOther constructor = []"
    "linkStylesheetBeforeAmpCustom constructor = []" "styleAmpCustom constructor = None"
    by (simp_all add: constructor_def)
  from absent_attributes_classified[of exAsyncNoSrc constructor] a
  have s1: "switchTagName constructor exAsyncNoSrc = constructor\<lparr>other := [exAsyncNoSrc]\<rparr>"
    by (simp add: c0)
  from absent_attributes_classified[of exLinkNoRel constructor] b
  have s2: "switchTagName constructor exLinkNoRel = constructor\<lparr>other := [exLinkNoRel]\<rparr>"
    by (simp add: c0)
  from absent_attributes_classified[of exStylesheetNoHref constructor] l
  have s3: "switchTagName constructor exStylesheetNoHref =
     constructor\<lparr>linkStylesheetBeforeAmpCustom := [exStylesheetNoHref]\<rparr>"
    by (simp add: c0)
  from absent_attributes_classified[of exViewport constructor] m
  have s4: "switchTagName constructor exViewport = constructor\<lparr>metaOther := [exViewport]\<rparr>"
    by (simp add: c0)
  have all: "\<forall>c\<in>set (children ?h). fallsToOther c" using a b by simp
  from absent_attributes_classified[of _ constructor ?h] all
  have s5: "\<exists>h'. reorderHead constructor (Some ?h) =
       Inr (constructor\<lparr>other := [exAsyncNoSrc, exLinkNoRel]\<rparr>, h') \<and>
     exAsyncNoSrc \<in> set (children h') \<and> exLinkNoRel \<in> set (children h')"
    by (simp add: c0)
  from a a' a'' b l m s1 s2 s3 s4 s5 show ?thesis by simp
qed

text \<open>
  C10 as stated fails: a stylesheet link without \<^verbatim>\<open>href\<close> does not go to
  \<open>other\<close>, it goes to \<open>linkStylesheetBeforeAmpCustom\<close>, or nowhere after a custom
  style; and a meta without \<^verbatim>\<open>charset\<close> goes to \<open>metaOther\<close>.
\<close>

theorem stylesheet_without_href_counterexample:
  "getAttribute exStylesheetNoHref ''href'' = None \<and>
   reorderHead constructor (Some \<lparr>head_ref = 0, children = [exStylesheetNoHref]\<rparr>) =
     Inr (constructor\<lparr>linkStylesheetBeforeAmpCustom := [exStylesheetNoHref]\<rparr>,
          \<lparr>head_ref = 0, children = [exStylesheetNoHref]\<rparr>) \<and>
   other (constructor\<lparr>linkStylesheetBeforeAmpCustom := [exStylesheetNoHref]\<rparr>) = [] \<and>
   reorderHead constructor (Some \<lparr>head_ref = 0, children = [exCustom, exStylesheetNoHref]\<rparr>) =
     Inr (constructor\<lparr>styleAmpCustom := Some exCustom\<rparr>,
          \<lparr>head_ref = 0, children = [exCustom]\<rparr>) \<and>
   hasAttribute exViewport ''charset'' = False \<and>
   reorderHead constructor (Some \<lparr>head_ref = 0, children = [exViewport]\<rparr>) =
     Inr (constructor\<lparr>metaOther := [exViewport]\<rparr>,
          \<lparr>head_ref = 0, children = [exViewport]\<rparr>) \<and>
   other (constructor\<lparr>metaOther := [exViewport]\<rparr>) = []"
  by (simp add: run_defs ex_defs ex_defs2)

end
